theory Spec2Isabelle
  imports Complex_Main
begin

section \<open>JavaScript values, promises and small library functions\<close>

text \<open>
  A thrown value is an \<^verbatim>\<open>Error\<close> object; only its \<^verbatim>\<open>message\<close> is ever read by the
  application (in the catch block of \<^verbatim>\<open>handleGenerateStory\<close>).
\<close>

datatype jserror = Error (message: string)

text \<open>
  Values produced by \<^verbatim>\<open>JSON.parse\<close>, together with \<^verbatim>\<open>undefined\<close>, which an array read
  out of range yields.
\<close>

datatype jsvalue =
    JUndefined
  | JNull
  | JBool bool
  | JNum real
  | JStr string
  | JArr "jsvalue list"
  | JObj "(string \<times> jsvalue) list"

text \<open>
  A promise is described by what it will do: stay pending for ever, or settle (resolve with a
  value or reject with an error) a number of milliseconds after the place in the code that
  created it. Awaiting a promise adds the time it took to the time of what follows.
\<close>

datatype 'a settled = Resolved 'a | Rejected jserror

datatype 'a promise = Pending | Settles nat "'a settled"

fun delay :: "nat \<Rightarrow> 'a promise \<Rightarrow> 'a promise" where
  "delay d Pending = Pending"
| "delay d (Settles t r) = Settles (d + t) r"

definition resolve :: "'a \<Rightarrow> 'a promise" where
  "resolve v = Settles 0 (Resolved v)"

definition throw :: "jserror \<Rightarrow> 'a promise" where
  "throw e = Settles 0 (Rejected e)"

text \<open>\<^verbatim>\<open>const v = await p; k(v)\<close> inside an async function: a rejection of \<open>p\<close> is thrown on.\<close>

definition await :: "'a promise \<Rightarrow> ('a \<Rightarrow> 'b promise) \<Rightarrow> 'b promise" where
  "await p k =
     (case p of
        Pending \<Rightarrow> Pending
      | Settles t (Rejected e) \<Rightarrow> Settles t (Rejected e)
      | Settles t (Resolved v) \<Rightarrow> delay t (k v))"

text \<open>\<^verbatim>\<open>try { body } catch (error) { handler }\<close> around an awaited body.\<close>

definition try_catch :: "'a promise \<Rightarrow> (jserror \<Rightarrow> 'a promise) \<Rightarrow> 'a promise" where
  "try_catch body handler =
     (case body of
        Pending \<Rightarrow> Pending
      | Settles t (Rejected e) \<Rightarrow> delay t (handler e)
      | Settles t (Resolved v) \<Rightarrow> Settles t (Resolved v))"

text \<open>\<^verbatim>\<open>xs[i]\<close> on an array: \<^verbatim>\<open>undefined\<close> (here \<open>None\<close>) outside \<open>0 .. length - 1\<close>.\<close>

definition js_index :: "'a list \<Rightarrow> int \<Rightarrow> 'a option" where
  "js_index xs i = (if 0 \<le> i \<and> i < int (length xs) then Some (xs ! nat i) else None)"

text \<open>
  \<^verbatim>\<open>String.prototype.trim\<close>. A character of a string is a UTF-16 code unit below 256 here.
  Of the white space and line terminators of JavaScript these are the six ASCII ones and the
  no-break space U+00A0; the others (U+1680, U+2000 to U+200A, U+2028, U+2029, U+202F,
  U+205F, U+3000 and U+FEFF) lie outside the type.
\<close>

definition is_space :: "char \<Rightarrow> bool" where
  "is_space c =
     (c \<in> set [CHR '' '', CHR 0x09, CHR 0x0A, CHR 0x0B, CHR 0x0C, CHR 0x0D, CHR 0xA0])"

definition trim :: "string \<Rightarrow> string" where
  "trim s = rev (dropWhile is_space (rev (dropWhile is_space s)))"

text \<open>\<^verbatim>\<open>s.includes(sub)\<close>: \<open>sub\<close> occurs in \<open>s\<close> as a contiguous run of characters.\<close>

fun starts_with :: "string \<Rightarrow> string \<Rightarrow> bool" where
  "starts_with s [] = True"
| "starts_with [] (c # sub) = False"
| "starts_with (d # s) (c # sub) = (d = c \<and> starts_with s sub)"

fun includes_str :: "string \<Rightarrow> string \<Rightarrow> bool" where
  "includes_str [] sub = (sub = [])"
| "includes_str (d # s) sub = (starts_with (d # s) sub \<or> includes_str s sub)"

text \<open>The decimal digits of a number, as a template literal \<^verbatim>\<open>${index}\<close> prints an integer.\<close>

fun digits :: "nat \<Rightarrow> string" where
  "digits n =
     (if n < 10 then [''0123456789'' ! n]
      else digits (n div 10) @ [''0123456789'' ! (n mod 10)])"

definition number_to_string :: "int \<Rightarrow> string" where
  "number_to_string i = (if i < 0 then CHR ''-'' # digits (nat (- i)) else digits (nat i))"

section \<open>The data of the application (types.ts)\<close>

text \<open>
  An \<^verbatim>\<open>AudioBuffer\<close> is a decoded clip; the player reads its \<^verbatim>\<open>duration\<close> (seconds) only.
\<close>

record AudioBuffer =
  buffer_duration :: real

record StorySegment =
  index :: int
  segment_text :: string
  audioBuffer :: "AudioBuffer option"

record AudioStory =
  totalSegmentsEstimate :: int
  outline :: "jsvalue list"
  segments :: "StorySegment list"

datatype TravelMode = WALKING | DRIVING

datatype StoryStyle = NOIR | CHILDREN | HISTORICAL | FANTASY

record RouteDetails =
  startAddress :: string
  endAddress :: string
  distance :: string
  duration :: string
  durationSeconds :: int
  travelMode :: TravelMode
  voiceName :: string
  storyStyle :: StoryStyle

section \<open>services/geminiService.ts\<close>

text \<open>
  The response of \<^verbatim>\<open>ai.models.generateContent\<close>: \<^verbatim>\<open>response.text\<close> (absent for
  \<^verbatim>\<open>undefined\<close>) and the base64 audio at
  \<^verbatim>\<open>response.candidates?.[0]?.content?.parts?.[0]?.inlineData?.data\<close>.
  The prompt sent to the service is a fixed template of the arguments; what the service answers
  is an input of the model, so the arguments that only feed the prompt (route, outline beat,
  previous text) are not arguments of the functions below.
\<close>

record GenerateContentResponse =
  response_text :: "string option"
  response_audioData :: "string option"

definition TARGET_SEGMENT_DURATION_SEC :: real where
  "TARGET_SEGMENT_DURATION_SEC = 45"

definition calculateTotalSegments :: "real \<Rightarrow> int" where
  "calculateTotalSegments seconds =
     max 1 \<lceil>seconds / TARGET_SEGMENT_DURATION_SEC\<rceil>"

text \<open>\<^verbatim>\<open>while (outline.length < totalSegments) outline.push(last)\<close>\<close>

function push_until :: "'a list \<Rightarrow> nat \<Rightarrow> 'a \<Rightarrow> 'a list" where
  "push_until outl totalSegments lst =
     (if length outl < totalSegments then push_until (outl @ [lst]) totalSegments lst else outl)"
  by pat_completeness auto
termination
  by (relation "measure (\<lambda>(outl, totalSegments, lst). totalSegments - length outl)") auto

declare push_until.simps [simp del]

definition OUTLINE_FALLBACK :: string where
  "OUTLINE_FALLBACK = ''Continue the journey toward the destination.''"

text \<open>
  The body of the \<^verbatim>\<open>try\<close> block of \<^verbatim>\<open>generateStoryOutline\<close> after the response arrived,
  in three steps: the length adjustment (\<^verbatim>\<open>last\<close> is \<^verbatim>\<open>outline[outline.length - 1]\<close>,
  which is \<^verbatim>\<open>undefined\<close> for an empty array), the \<^verbatim>\<open>Array.isArray\<close> test, and the reading
  of the text. \<^verbatim>\<open>JSON.parse\<close> is a parameter: \<open>None\<close> is its \<^verbatim>\<open>SyntaxError\<close>.
\<close>

definition adjust_length :: "jsvalue list \<Rightarrow> nat \<Rightarrow> jsvalue list" where
  "adjust_length outl totalSegments =
     take totalSegments
       (if length outl < totalSegments
        then push_until outl totalSegments
               (case js_index outl (int (length outl) - 1) of
                  None \<Rightarrow> JUndefined
                | Some v \<Rightarrow> v)
        else outl)"

fun outline_of_parsed :: "jsvalue \<Rightarrow> nat \<Rightarrow> jserror + jsvalue list" where
  "outline_of_parsed (JArr outl) totalSegments = Inr (adjust_length outl totalSegments)"
| "outline_of_parsed v totalSegments = Inl (Error ''Invalid format.'')"

definition outline_of_response ::
  "(string \<Rightarrow> jsvalue option) \<Rightarrow> GenerateContentResponse \<Rightarrow> nat \<Rightarrow> jserror + jsvalue list" where
  "outline_of_response JSON_parse response totalSegments =
     (case map_option trim (response_text response) of
        None \<Rightarrow> Inl (Error ''No outline generated.'')
      | Some tx \<Rightarrow>
          if tx = [] then Inl (Error ''No outline generated.'')
          else
            (case JSON_parse tx of
               None \<Rightarrow> Inl (Error ''SyntaxError'')
             | Some parsed \<Rightarrow> outline_of_parsed parsed totalSegments))"

definition generateStoryOutline ::
  "(string \<Rightarrow> jsvalue option) \<Rightarrow> GenerateContentResponse promise \<Rightarrow> nat \<Rightarrow> jsvalue list promise" where
  "generateStoryOutline JSON_parse api_call totalSegments =
     try_catch
       (await api_call (\<lambda>response.
          case outline_of_response JSON_parse response totalSegments of
            Inl e \<Rightarrow> throw e
          | Inr outl \<Rightarrow> resolve outl))
       (\<lambda>error. resolve (replicate totalSegments (JStr OUTLINE_FALLBACK)))"

definition SEGMENT_FALLBACK :: string where
  "SEGMENT_FALLBACK = ''The journey continues...''"

definition generateSegment :: "GenerateContentResponse promise \<Rightarrow> int \<Rightarrow> StorySegment promise" where
  "generateSegment api_call segmentIndex =
     try_catch
       (await api_call (\<lambda>response.
          resolve \<lparr> index = segmentIndex,
                    segment_text =
                      (case map_option trim (response_text response) of
                         None \<Rightarrow> SEGMENT_FALLBACK
                       | Some tx \<Rightarrow> if tx = [] then SEGMENT_FALLBACK else tx),
                    audioBuffer = None \<rparr>))
       (\<lambda>error. throw error)"

text \<open>
  \<^verbatim>\<open>generateSegmentAudio\<close>: the decoding of the audio data (\<^verbatim>\<open>pcmToWav\<close>,
  \<^verbatim>\<open>decodeAudioData\<close>) is a parameter; it may reject.
\<close>

definition generateSegmentAudio ::
  "(string \<Rightarrow> AudioBuffer promise) \<Rightarrow> GenerateContentResponse promise \<Rightarrow> AudioBuffer promise" where
  "generateSegmentAudio decodeAudioData api_call =
     try_catch
       (await api_call (\<lambda>response.
          case response_audioData response of
            None \<Rightarrow> throw (Error ''No audio data.'')
          | Some audioData \<Rightarrow>
              if audioData = [] then throw (Error ''No audio data.'')
              else decodeAudioData audioData))
       (\<lambda>error. throw error)"

section \<open>App.tsx\<close>

subsection \<open>withTimeout\<close>

text \<open>
  \<^verbatim>\<open>promise.then(val => ...)\<close> with a handler for fulfilment only: a rejection passes through.
\<close>

definition promise_then :: "'a promise \<Rightarrow> ('a \<Rightarrow> 'b) \<Rightarrow> 'b promise" where
  "promise_then p onFulfilled =
     (case p of
        Pending \<Rightarrow> Pending
      | Settles t (Resolved v) \<Rightarrow> Settles t (Resolved (onFulfilled v))
      | Settles t (Rejected e) \<Rightarrow> Settles t (Rejected e))"

text \<open>
  \<^verbatim>\<open>Promise.race\<close> settles as the first of its arguments that settles. Of two promises that
  settle in the same millisecond the one that stands earlier in the array wins, as it does in
  JavaScript for promises that are already settled.
\<close>

fun race2 :: "'a promise \<Rightarrow> 'a promise \<Rightarrow> 'a promise" where
  "race2 Pending q = q"
| "race2 (Settles t r) Pending = Settles t r"
| "race2 (Settles t r) (Settles u s) = (if t \<le> u then Settles t r else Settles u s)"

definition Promise_race :: "'a promise list \<Rightarrow> 'a promise" where
  "Promise_race ps = foldr race2 ps Pending"

text \<open>
  \<^verbatim>\<open>setTimeout\<close> converts its delay to a signed 32-bit integer and takes a negative delay
  for 0: a delay from \<open>2 ^ 31\<close> on wraps around, and the timer fires at once when the
  wrapped value is negative.
\<close>

definition setTimeout_delay :: "nat \<Rightarrow> nat" where
  "setTimeout_delay ms = (if ms mod 2 ^ 32 < 2 ^ 31 then ms mod 2 ^ 32 else 0)"

text \<open>
  The timer rejects when its delay has passed. \<^verbatim>\<open>clearTimeout\<close> runs in the fulfilment
  handler, that is after the race is decided, and does not change the result; it has no
  counterpart in the model.
\<close>

definition withTimeout :: "'a promise \<Rightarrow> nat \<Rightarrow> string \<Rightarrow> 'a promise" where
  "withTimeout promise ms errorMsg =
     (let timeoutPromise = Settles (setTimeout_delay ms) (Rejected (Error errorMsg))
      in Promise_race [promise_then promise (\<lambda>val. val), timeoutPromise])"

subsection \<open>The state of the component\<close>

text \<open>
  \<^verbatim>\<open>AppState\<close> is a numeric enum of types.ts, which is not among the sources. The code
  compares its members with \<^verbatim>\<open><\<close> and \<^verbatim>\<open>>=\<close>, so the state holds the number and the
  numbers of the four members that App.tsx names are a parameter of the handlers.
\<close>

record AppState_enum =
  PLANNING :: int
  GENERATING_INITIAL_SEGMENT :: int
  READY_TO_PLAY :: int
  PLAYING :: int

text \<open>
  The state hooks and the ref of \<^verbatim>\<open>App\<close> that the generation logic reads or writes
  (\<^verbatim>\<open>loadingMessage\<close>, \<^verbatim>\<open>scriptError\<close> and \<^verbatim>\<open>mapApiAvailable\<close> belong to the
  loading caption and the map bootstrap).
\<close>

record App =
  appState :: int
  route :: "RouteDetails option"
  story :: "AudioStory option"
  generationError :: "string option"
  isGeneratingRef :: bool
  isBackgroundGenerating :: bool
  currentPlayingIndex :: int

text \<open>
  What the remote service and the browser do for the calls of one request chain: the promises
  returned by the three \<^verbatim>\<open>generateContent\<close> calls, the audio decoder and \<^verbatim>\<open>JSON.parse\<close>.
\<close>

record Backend =
  outline_call :: "GenerateContentResponse promise"
  segment_call :: "GenerateContentResponse promise"
  audio_call :: "GenerateContentResponse promise"
  decodeAudioData :: "string \<Rightarrow> AudioBuffer promise"
  JSON_parse :: "string \<Rightarrow> jsvalue option"

subsection \<open>Continuous buffering engine\<close>

text \<open>
  The effect hook: the argument of the call \<^verbatim>\<open>generateNextSegment(totalGenerated + 1)\<close> that
  it makes, or \<open>None\<close> when it makes none.
\<close>

definition bufferingEffect :: "AppState_enum \<Rightarrow> App \<Rightarrow> int option" where
  "bufferingEffect E s =
     (case story s of
        None \<Rightarrow> None
      | Some st \<Rightarrow>
          (case route s of
             None \<Rightarrow> None
           | Some r \<Rightarrow>
               if appState s < READY_TO_PLAY E then None
               else
                 (let totalGenerated = int (length (segments st));
                      neededBufferIndex = currentPlayingIndex s + 3
                  in if totalGenerated < neededBufferIndex
                        \<and> totalGenerated < totalSegmentsEstimate st
                        \<and> \<not> isGeneratingRef s
                     then Some (totalGenerated + 1)
                     else None)))"

text \<open>
  \<^verbatim>\<open>generateNextSegment\<close> in three parts. The first is what runs before the first
  \<^verbatim>\<open>await\<close>: the guard, and the two flags; the Boolean tells whether a request chain was
  started.
\<close>

definition generateNextSegment_begin :: "int \<Rightarrow> App \<Rightarrow> App \<times> bool" where
  "generateNextSegment_begin idx s =
     (if route s = None \<or> story s = None \<or> isGeneratingRef s then (s, False)
      else (s\<lparr>isGeneratingRef := True, isBackgroundGenerating := True\<rparr>, True))"

text \<open>
  The second is the chain of awaited calls in the \<^verbatim>\<open>try\<close> block. The previous text and
  the outline beat go into the prompt only; \<^verbatim>\<open>tempCtx.close()\<close> is taken to resolve at
  once.
\<close>

definition generateNextSegment_chain :: "Backend \<Rightarrow> int \<Rightarrow> (StorySegment \<times> AudioBuffer) promise" where
  "generateNextSegment_chain B idx =
     await (withTimeout (generateSegment (segment_call B) idx) 60000
              (''Text generation timed out for segment '' @ number_to_string idx))
       (\<lambda>segmentData.
     await (withTimeout (generateSegmentAudio (decodeAudioData B) (audio_call B)) 100000
              (''Audio generation timed out for segment '' @ number_to_string idx))
       (\<lambda>audioBuffer. resolve (segmentData, audioBuffer)))"

text \<open>The updater passed to \<^verbatim>\<open>setStory\<close>; JavaScript's \<^verbatim>\<open>sort\<close> is stable.\<close>

definition setStory_updater :: "int \<Rightarrow> StorySegment \<Rightarrow> AudioStory option \<Rightarrow> AudioStory option" where
  "setStory_updater idx newSegment prev =
     (case prev of
        None \<Rightarrow> None
      | Some p \<Rightarrow>
          if list_ex (\<lambda>s. index s = idx) (segments p) then Some p
          else Some (p\<lparr>segments := sort_key index (segments p @ [newSegment])\<rparr>))"

text \<open>
  The third is what runs when the chain has settled: \<^verbatim>\<open>setStory\<close> after success, the
  \<^verbatim>\<open>catch\<close> block (it writes to the console and nothing else) after a failure, and the
  \<^verbatim>\<open>finally\<close> block.
\<close>

definition generateNextSegment_settle ::
  "int \<Rightarrow> (StorySegment \<times> AudioBuffer) settled \<Rightarrow> App \<Rightarrow> App" where
  "generateNextSegment_settle idx outcome s =
     (let s' =
        (case outcome of
           Resolved (segmentData, buf) \<Rightarrow>
             s\<lparr>story := setStory_updater idx (segmentData\<lparr>audioBuffer := Some buf\<rparr>) (story s)\<rparr>
         | Rejected e \<Rightarrow> s)
      in s'\<lparr>isGeneratingRef := False, isBackgroundGenerating := False\<rparr>)"

text \<open>
  The whole call when no other handler runs while it is in flight: the state when the promise
  returned by \<^verbatim>\<open>generateNextSegment\<close> settles, \<open>None\<close> if it never does.
\<close>

definition generateNextSegment :: "Backend \<Rightarrow> int \<Rightarrow> App \<Rightarrow> App option" where
  "generateNextSegment B idx s =
     (case generateNextSegment_begin idx s of
        (s1, False) \<Rightarrow> Some s1
      | (s1, True) \<Rightarrow>
          (case generateNextSegment_chain B idx of
             Pending \<Rightarrow> None
           | Settles t outcome \<Rightarrow> Some (generateNextSegment_settle idx outcome s1)))"

subsection \<open>Initial generation and reset\<close>

definition handleGenerateStory_begin :: "AppState_enum \<Rightarrow> RouteDetails \<Rightarrow> App \<Rightarrow> App" where
  "handleGenerateStory_begin E details s =
     s\<lparr>route := Some details, generationError := None,
       appState := GENERATING_INITIAL_SEGMENT E\<rparr>"

text \<open>
  The chain of awaited calls of \<^verbatim>\<open>handleGenerateStory\<close>; the first outline beat goes into
  the prompt only.
\<close>

definition handleGenerateStory_chain :: "Backend \<Rightarrow> RouteDetails \<Rightarrow> AudioStory promise" where
  "handleGenerateStory_chain B details =
     (let total = calculateTotalSegments (real_of_int (durationSeconds details))
      in
        await (withTimeout (generateStoryOutline (JSON_parse B) (outline_call B) (nat total)) 60000
                 ''Story outline generation timed out'')
          (\<lambda>outl.
        await (withTimeout (generateSegment (segment_call B) 1) 60000
                 ''Initial text generation timed out'')
          (\<lambda>seg1Data.
        await (withTimeout (generateSegmentAudio (decodeAudioData B) (audio_call B)) 100000
                 ''Initial audio generation timed out'')
          (\<lambda>seg1Audio.
             resolve \<lparr> totalSegmentsEstimate = total, outline = outl,
                       segments = [seg1Data\<lparr>audioBuffer := Some seg1Audio\<rparr>] \<rparr>))))"

definition MSG_COULD_NOT_START :: string where
  "MSG_COULD_NOT_START =
     ''We couldn'' @ [CHR 0x27] @ ''t start the story. Please check your route.''"

definition MSG_TIMED_OUT :: string where
  "MSG_TIMED_OUT =
     ''The journey is long, and our storytellers timed out. Try a shorter segment?''"

text \<open>The end of the \<^verbatim>\<open>try\<close> block after success, the \<^verbatim>\<open>catch\<close> block after a failure.\<close>

definition handleGenerateStory_settle :: "AppState_enum \<Rightarrow> AudioStory settled \<Rightarrow> App \<Rightarrow> App" where
  "handleGenerateStory_settle E outcome s =
     (case outcome of
        Resolved st \<Rightarrow> s\<lparr>story := Some st, appState := READY_TO_PLAY E\<rparr>
      | Rejected error \<Rightarrow>
          s\<lparr>appState := PLANNING E,
            generationError :=
              Some (if message error \<noteq> []
                       \<and> (includes_str (message error) ''timed out''
                            \<or> includes_str (message error) ''timeout'')
                    then MSG_TIMED_OUT else MSG_COULD_NOT_START)\<rparr>)"

definition handleGenerateStory :: "AppState_enum \<Rightarrow> Backend \<Rightarrow> RouteDetails \<Rightarrow> App \<Rightarrow> App option" where
  "handleGenerateStory E B details s =
     (case handleGenerateStory_chain B details of
        Pending \<Rightarrow> None
      | Settles t outcome \<Rightarrow>
          Some (handleGenerateStory_settle E outcome (handleGenerateStory_begin E details s)))"

definition handleReset :: "AppState_enum \<Rightarrow> App \<Rightarrow> App" where
  "handleReset E s =
     s\<lparr>appState := PLANNING E, route := None, story := None, currentPlayingIndex := 0,
       generationError := None, isGeneratingRef := False, isBackgroundGenerating := False\<rparr>"

subsection \<open>The handlers as events\<close>

text \<open>
  The handlers of \<^verbatim>\<open>App\<close> run one at a time, and an async handler gives way at each
  \<^verbatim>\<open>await\<close>. The system state is the component state together with the request chains that
  are in flight: the indices of the running \<^verbatim>\<open>generateNextSegment\<close> calls and the routes of
  the running \<^verbatim>\<open>handleGenerateStory\<close> calls. An event is one handler running up to its
  first \<^verbatim>\<open>await\<close>, or one chain settling; the event that settles a chain carries what the
  remote service did for it.
\<close>

record System =
  app :: App
  inflight :: "int list"
  starting :: "RouteDetails list"

datatype event =
    Effect
  | SegmentSettled nat Backend
  | GenerateStory RouteDetails
  | StorySettled nat Backend
  | Reset
  | SegmentChange int

definition remove_nth :: "nat \<Rightarrow> 'a list \<Rightarrow> 'a list" where
  "remove_nth k xs = take k xs @ drop (Suc k) xs"

fun step :: "AppState_enum \<Rightarrow> System \<Rightarrow> event \<Rightarrow> System" where
  "step E sys Effect =
     (case bufferingEffect E (app sys) of
        None \<Rightarrow> sys
      | Some idx \<Rightarrow>
          (case generateNextSegment_begin idx (app sys) of
             (s1, started) \<Rightarrow>
               sys\<lparr>app := s1,
                   inflight := (if started then inflight sys @ [idx] else inflight sys)\<rparr>))"
| "step E sys (SegmentSettled k B) =
     (if k < length (inflight sys) then
        (case generateNextSegment_chain B (inflight sys ! k) of
           Pending \<Rightarrow> sys
         | Settles t outcome \<Rightarrow>
             sys\<lparr>app := generateNextSegment_settle (inflight sys ! k) outcome (app sys),
                 inflight := remove_nth k (inflight sys)\<rparr>)
      else sys)"
| "step E sys (GenerateStory details) =
     sys\<lparr>app := handleGenerateStory_begin E details (app sys),
         starting := starting sys @ [details]\<rparr>"
| "step E sys (StorySettled k B) =
     (if k < length (starting sys) then
        (case handleGenerateStory_chain B (starting sys ! k) of
           Pending \<Rightarrow> sys
         | Settles t outcome \<Rightarrow>
             sys\<lparr>app := handleGenerateStory_settle E outcome (app sys),
                 starting := remove_nth k (starting sys)\<rparr>)
      else sys)"
| "step E sys Reset = sys\<lparr>app := handleReset E (app sys)\<rparr>"
| "step E sys (SegmentChange i) = sys\<lparr>app := (app sys)\<lparr>currentPlayingIndex := i\<rparr>\<rparr>"

definition run :: "AppState_enum \<Rightarrow> System \<Rightarrow> event list \<Rightarrow> System" where
  "run E sys evs = foldl (step E) sys evs"

text \<open>The state after mounting: the initial values of the hooks.\<close>

definition initial_App :: "AppState_enum \<Rightarrow> App" where
  "initial_App E =
     \<lparr> appState = PLANNING E, route = None, story = None, generationError = None,
       isGeneratingRef = False, isBackgroundGenerating = False, currentPlayingIndex = 0 \<rparr>"

definition initial_System :: "AppState_enum \<Rightarrow> System" where
  "initial_System E = \<lparr> app = initial_App E, inflight = [], starting = [] \<rparr>"

text \<open>The properties of the segment list and of the request chains that the handlers keep.\<close>

definition segments_ok :: "StorySegment list \<Rightarrow> bool" where
  "segments_ok segs = (distinct (map index segs) \<and> sorted (map index segs))"

definition story_ok :: "AudioStory option \<Rightarrow> bool" where
  "story_ok st = (case st of None \<Rightarrow> True | Some p \<Rightarrow> segments_ok (segments p))"

definition single_flight :: "System \<Rightarrow> bool" where
  "single_flight sys =
     (length (inflight sys) \<le> 1 \<and> (inflight sys \<noteq> [] \<longrightarrow> isGeneratingRef (app sys)))"

section \<open>components/StoryPlayer.tsx\<close>

text \<open>
  Of the \<^verbatim>\<open>AudioContext\<close> the player reads \<^verbatim>\<open>currentTime\<close> (seconds, a real number here);
  \<^verbatim>\<open>resume()\<close> does not change it. A source node is described by the buffer it plays and
  the offset it was started at with \<^verbatim>\<open>source.start(0, offset)\<close>. The state of the player
  is its state hooks and refs; the last field is no variable of the component, it records the
  calls of \<^verbatim>\<open>source.start\<close> in the order in which they were made.
\<close>

record AudioContext =
  currentTime :: real

record Source =
  source_buffer :: AudioBuffer
  source_offset :: real

record StoryPlayer =
  isPlaying :: bool
  currentSegmentIndex :: int
  isBuffering :: bool
  audioContextRef :: "AudioContext option"
  sourceRef :: "Source option"
  startTimeRef :: real
  segmentOffsetRef :: real
  indexRef :: int
  started_sources :: "Source list"

definition stopAudio :: "StoryPlayer \<Rightarrow> StoryPlayer" where
  "stopAudio p = p\<lparr>sourceRef := None\<rparr>"

text \<open>
  \<^verbatim>\<open>playSegment(segment, offset)\<close>; the segment is \<open>None\<close> for \<^verbatim>\<open>undefined\<close>. A new
  \<^verbatim>\<open>AudioContext\<close> starts at time 0.
\<close>

definition playSegment :: "StorySegment option \<Rightarrow> real \<Rightarrow> StoryPlayer \<Rightarrow> StoryPlayer" where
  "playSegment segment offset p =
     (case Option.bind segment audioBuffer of
        None \<Rightarrow> p\<lparr>isBuffering := True\<rparr>
      | Some buf \<Rightarrow>
          (let ctx = (case audioContextRef p of
                        None \<Rightarrow> \<lparr> currentTime = 0 \<rparr>
                      | Some c \<Rightarrow> c);
               p1 = stopAudio (p\<lparr>audioContextRef := Some ctx\<rparr>);
               source = \<lparr> source_buffer = buf, source_offset = offset \<rparr>
           in p1\<lparr>sourceRef := Some source,
                 startTimeRef := currentTime ctx - offset,
                 started_sources := started_sources p1 @ [source]\<rparr>))"

text \<open>
  \<^verbatim>\<open>handleSegmentEnd\<close>, with the props \<^verbatim>\<open>story\<close> and \<^verbatim>\<open>isBackgroundGenerating\<close> of the
  render whose closure it belongs to.
\<close>

definition handleSegmentEnd :: "AudioStory \<Rightarrow> bool \<Rightarrow> StoryPlayer \<Rightarrow> StoryPlayer" where
  "handleSegmentEnd st backgroundGenerating p =
     (let currentIndex = indexRef p;
          nextIndex = currentIndex + 1;
          p1 = p\<lparr>currentSegmentIndex := nextIndex, segmentOffsetRef := 0\<rparr>
      in if Option.bind (js_index (segments st) nextIndex) audioBuffer \<noteq> None
         then playSegment (js_index (segments st) nextIndex) 0 p1
         else if nextIndex \<ge> totalSegmentsEstimate st \<and> \<not> backgroundGenerating
              then p1\<lparr>isPlaying := False\<rparr>
              else p1\<lparr>isBuffering := True\<rparr>)"

text \<open>The \<^verbatim>\<open>onended\<close> handler that \<^verbatim>\<open>playSegment\<close> installs on the source of a buffer.\<close>

definition source_onended :: "AudioStory \<Rightarrow> bool \<Rightarrow> AudioBuffer \<Rightarrow> StoryPlayer \<Rightarrow> StoryPlayer" where
  "source_onended st backgroundGenerating buf p =
     (case audioContextRef p of
        None \<Rightarrow> p
      | Some ctx \<Rightarrow>
          (let elapsed = currentTime ctx - startTimeRef p
           in if elapsed \<ge> buffer_duration buf - 1 / 2
              then handleSegmentEnd st backgroundGenerating p
              else p))"

definition togglePlayback :: "AudioStory \<Rightarrow> StoryPlayer \<Rightarrow> StoryPlayer" where
  "togglePlayback st p =
     (if isPlaying p then
        (let p1 = (case audioContextRef p of
                     None \<Rightarrow> p
                   | Some ctx \<Rightarrow>
                       if \<not> isBuffering p
                       then p\<lparr>segmentOffsetRef := currentTime ctx - startTimeRef p\<rparr>
                       else p)
         in (stopAudio p1)\<lparr>isPlaying := False\<rparr>)
      else
        (let p1 = p\<lparr>isPlaying := True\<rparr>;
             currentSegment = js_index (segments st) (currentSegmentIndex p)
         in if Option.bind currentSegment audioBuffer \<noteq> None
            then playSegment currentSegment (segmentOffsetRef p1) (p1\<lparr>isBuffering := False\<rparr>)
            else p1\<lparr>isBuffering := True\<rparr>))"

text \<open>
  The effect that leaves the buffering state once the current segment has its audio; it runs
  after a render, with the story of that render.
\<close>

definition resumeWhenReady :: "AudioStory \<Rightarrow> StoryPlayer \<Rightarrow> StoryPlayer" where
  "resumeWhenReady st p =
     (let segmentNowReady = js_index (segments st) (currentSegmentIndex p)
      in if isBuffering p \<and> isPlaying p \<and> Option.bind segmentNowReady audioBuffer \<noteq> None
         then playSegment segmentNowReady 0 (p\<lparr>isBuffering := False\<rparr>)
         else p)"

text \<open>The effect that copies the current index into its ref after a render.\<close>

definition syncIndexRef :: "StoryPlayer \<Rightarrow> StoryPlayer" where
  "syncIndexRef p = p\<lparr>indexRef := currentSegmentIndex p\<rparr>"

text \<open>The clock of the audio context moves on by \<open>dt\<close> seconds.\<close>

definition time_passes :: "real \<Rightarrow> StoryPlayer \<Rightarrow> StoryPlayer" where
  "time_passes dt p =
     p\<lparr>audioContextRef := map_option (\<lambda>c. c\<lparr>currentTime := currentTime c + dt\<rparr>) (audioContextRef p)\<rparr>"

text \<open>The position in the clip that is playing, as the player computes it.\<close>

definition playback_position :: "StoryPlayer \<Rightarrow> real option" where
  "playback_position p = map_option (\<lambda>c. currentTime c - startTimeRef p) (audioContextRef p)"

subsection \<open>The player over time\<close>

text \<open>
  The handlers of the player run one at a time, and after each of them React renders the
  component again and runs its effects. A handler reads the props of the render it was made
  in: \<^verbatim>\<open>togglePlayback\<close> and the effects are those of the latest render, but the
  \<^verbatim>\<open>onended\<close> handler of a source is the one of the render whose \<^verbatim>\<open>playSegment\<close> started
  that source, and a source started by \<^verbatim>\<open>handleSegmentEnd\<close> inherits the render of the
  handler. The state of the system is therefore the player, the props of the latest render,
  the props that the \<^verbatim>\<open>onended\<close> handler of the current source reads, and whether that
  source can still fire \<^verbatim>\<open>onended\<close> (it fires once, and not after \<^verbatim>\<open>stopAudio\<close> has taken
  the handler off).
\<close>

record PlayerSystem =
  player :: StoryPlayer
  story_prop :: AudioStory
  generating_prop :: bool
  handler_story :: AudioStory
  handler_generating :: bool
  source_live :: bool

datatype player_event =
    Click
  | Ended
  | Tick real
  | Props AudioStory bool

text \<open>
  The player after a handler or an effect has run: if it started a source, the source is live,
  and its handler reads the props of the latest render when \<open>latest\<close> says that the code
  that started it belongs to that render.
\<close>

definition installed :: "PlayerSystem \<Rightarrow> bool \<Rightarrow> StoryPlayer \<Rightarrow> PlayerSystem" where
  "installed sys latest p' =
     (let startedNow = length (started_sources (player sys)) < length (started_sources p')
      in sys\<lparr>player := p',
             handler_story :=
               (if startedNow \<and> latest then story_prop sys else handler_story sys),
             handler_generating :=
               (if startedNow \<and> latest then generating_prop sys else handler_generating sys),
             source_live :=
               (if startedNow then True else source_live sys \<and> sourceRef p' \<noteq> None)\<rparr>)"

text \<open>The effects after a render, in the order of the source.\<close>

definition run_effects :: "PlayerSystem \<Rightarrow> PlayerSystem" where
  "run_effects sys =
     installed sys True (resumeWhenReady (story_prop sys) (syncIndexRef (player sys)))"

fun player_step :: "PlayerSystem \<Rightarrow> player_event \<Rightarrow> PlayerSystem" where
  "player_step sys Click =
     run_effects (installed sys True (togglePlayback (story_prop sys) (player sys)))"
| "player_step sys Ended =
     (if source_live sys then
        (case sourceRef (player sys) of
           None \<Rightarrow> sys
         | Some src \<Rightarrow>
             run_effects
               (installed (sys\<lparr>source_live := False\<rparr>) False
                  (source_onended (handler_story sys) (handler_generating sys)
                     (source_buffer src) (player sys))))
      else sys)"
| "player_step sys (Tick dt) = sys\<lparr>player := time_passes dt (player sys)\<rparr>"
| "player_step sys (Props st backgroundGenerating) =
     run_effects (sys\<lparr>story_prop := st, generating_prop := backgroundGenerating\<rparr>)"

definition player_run :: "PlayerSystem \<Rightarrow> player_event list \<Rightarrow> PlayerSystem" where
  "player_run sys evs = foldl player_step sys evs"

text \<open>The component after mounting with a story: the initial values of its hooks and refs.\<close>

definition mount :: "AudioStory \<Rightarrow> bool \<Rightarrow> PlayerSystem" where
  "mount st backgroundGenerating =
     \<lparr> player =
         \<lparr> isPlaying = False, currentSegmentIndex = 0, isBuffering = False,
           audioContextRef = None, sourceRef = None, startTimeRef = 0, segmentOffsetRef = 0,
           indexRef = 0, started_sources = [] \<rparr>,
       story_prop = st, generating_prop = backgroundGenerating,
       handler_story = st, handler_generating = backgroundGenerating,
       source_live = False \<rparr>"

text \<open>
  One clip after the other comes to its end: for each entry of the list the clock moves on by
  that time and the \<^verbatim>\<open>onended\<close> event of the current source fires.
\<close>

fun clips_end :: "real list \<Rightarrow> PlayerSystem \<Rightarrow> PlayerSystem" where
  "clips_end [] sys = sys"
| "clips_end (dt # dts) sys = clips_end dts (player_step (player_step sys (Tick dt)) Ended)"

text \<open>The audio of the segment at a place of the list of a story, if it is there.\<close>

definition clip_at :: "AudioStory \<Rightarrow> int \<Rightarrow> AudioBuffer option" where
  "clip_at st k = Option.bind (js_index (segments st) k) audioBuffer"

text \<open>
  The waiting times fit the clips: each wait, added to the time the clip that is playing has
  run, reaches to within half a second of its end; the next clip then starts from 0.
\<close>

fun on_time :: "real \<Rightarrow> AudioBuffer \<Rightarrow> real list \<Rightarrow> AudioBuffer list \<Rightarrow> bool" where
  "on_time elapsed b (dt # dts) (b' # bs) =
     (buffer_duration b - 1 / 2 \<le> elapsed + dt \<and> on_time 0 b' dts bs)"
| "on_time elapsed b dts bs = (dts = [] \<and> bs = [])"

text \<open>What every handler and effect keeps true of the player.\<close>

definition live_ok :: "PlayerSystem \<Rightarrow> bool" where
  "live_ok sys =
     (source_live sys \<longrightarrow>
        sourceRef (player sys) \<noteq> None \<and> audioContextRef (player sys) \<noteq> None
        \<and> isPlaying (player sys) \<and> \<not> isBuffering (player sys))"

definition player_inv :: "PlayerSystem \<Rightarrow> bool" where
  "player_inv sys =
     (indexRef (player sys) = currentSegmentIndex (player sys) \<and> live_ok sys)"

section \<open>components/RoutePlanner.tsx\<close>

record RoutePlanner =
  startAddress_state :: string
  endAddress_state :: string
  manualDuration :: int
  travelMode_state :: TravelMode
  selectedStyle :: StoryStyle
  error_state :: "string option"
  isLoading :: bool

text \<open>What the directions service calls back with: the legs of the routes, and a status.\<close>

record DirectionsLeg =
  start_address :: string
  end_address :: string
  distance_text :: string
  duration_text :: string
  duration_value :: int

datatype DirectionsStatus = OK | NOT_OK string

text \<open>
  The callback given to \<^verbatim>\<open>directionsService.route\<close>. Its result is the new state and the
  argument of the call of \<^verbatim>\<open>onRouteFound\<close>, if it makes one; reading \<^verbatim>\<open>routes[0]\<close> or
  \<^verbatim>\<open>legs[0]\<close> of an empty array throws.
\<close>

definition directions_callback ::
  "DirectionsLeg list list \<Rightarrow> DirectionsStatus \<Rightarrow> RoutePlanner
     \<Rightarrow> jserror + (RoutePlanner \<times> RouteDetails option)" where
  "directions_callback result status p =
     (let p1 = p\<lparr>isLoading := False\<rparr>
      in if status = OK then
           (case js_index result 0 of
              None \<Rightarrow> Inl (Error ''TypeError'')
            | Some legs \<Rightarrow>
                (case js_index legs 0 of
                   None \<Rightarrow> Inl (Error ''TypeError'')
                 | Some leg \<Rightarrow>
                     if duration_value leg > 14400
                     then Inr (p1\<lparr>error_state :=
                                    Some ''Journey too long. Try a route under 4 hours.''\<rparr>, None)
                     else Inr (p1,
                            Some \<lparr> startAddress = start_address leg,
                                   endAddress = end_address leg,
                                   distance = distance_text leg,
                                   duration = duration_text leg,
                                   durationSeconds = duration_value leg,
                                   travelMode = travelMode_state p,
                                   voiceName = ''Kore'',
                                   storyStyle = selectedStyle p \<rparr>)))
         else Inr (p1\<lparr>error_state :=
                        Some ''Could not find a route between these locations.''\<rparr>, None))"

text \<open>
  \<^verbatim>\<open>handleCalculate\<close>. The two inputs are the values of the input elements (\<open>None\<close> when the
  ref is empty); \<open>google_maps\<close> is \<open>None\<close> when \<^verbatim>\<open>window.google?.maps\<close> is missing and
  otherwise holds what the directions service answers.
\<close>

definition handleCalculate ::
  "string option \<Rightarrow> string option \<Rightarrow> bool \<Rightarrow> (DirectionsLeg list list \<times> DirectionsStatus) option
     \<Rightarrow> RoutePlanner \<Rightarrow> jserror + (RoutePlanner \<times> RouteDetails option)" where
  "handleCalculate startInput endInput mapApiAvailable google_maps p =
     (let finalStart = (case startInput of
                          None \<Rightarrow> startAddress_state p
                        | Some v \<Rightarrow> if v \<noteq> [] then v else startAddress_state p);
          finalEnd = (case endInput of
                        None \<Rightarrow> endAddress_state p
                      | Some v \<Rightarrow> if v \<noteq> [] then v else endAddress_state p)
      in if finalStart = [] \<or> finalEnd = []
         then Inr (p\<lparr>error_state := Some ''Please define your journey start and end.''\<rparr>, None)
         else
           (let p1 = p\<lparr>error_state := None, isLoading := True\<rparr>
            in case (if mapApiAvailable then google_maps else None) of
                 Some (result, status) \<Rightarrow> directions_callback result status p1
               | None \<Rightarrow>
                   Inr (p1\<lparr>isLoading := False\<rparr>,
                        Some \<lparr> startAddress = finalStart,
                               endAddress = finalEnd,
                               distance = ''Unknown'',
                               duration = number_to_string (manualDuration p) @ '' mins'',
                               durationSeconds = manualDuration p * 60,
                               travelMode = travelMode_state p,
                               voiceName = ''Kore'',
                               storyStyle = selectedStyle p \<rparr>)))"

section \<open>Sample data\<close>

text \<open>
  Concrete inputs on which the functions above are evaluated further down: the values of
  \<^verbatim>\<open>JSON.parse\<close> at four texts, a route of 90 seconds (an estimate of two segments), a
  remote service that answers every call and one that fails every call, and a numbering of
  the \<^verbatim>\<open>AppState\<close> members.
\<close>

definition sample_outline_text :: string where
  "sample_outline_text = ''['' @ [CHR 0x22] @ ''Departure'' @ [CHR 0x22] @ '']''"

text \<open>
  The JSON text \<^verbatim>\<open>[1, 2]\<close> between no-break spaces, and a text of white space only.
\<close>

definition padded_array_text :: string where
  "padded_array_text =
     [CHR 0xA0, CHR '' '', CHR ''['', CHR ''1'', CHR '','', CHR '' '', CHR ''2'', CHR '']'',
      CHR 0xA0]"

definition blank_text :: string where
  "blank_text = [CHR '' '', CHR 0xA0, CHR 0x0A]"

definition JSON_parse_sample :: "string \<Rightarrow> jsvalue option" where
  "JSON_parse_sample tx =
     (if tx = ''[]'' then Some (JArr [])
      else if tx = ''[1, 2]'' then Some (JArr [JNum 1, JNum 2])
      else if tx = ''{}'' then Some (JObj [])
      else if tx = sample_outline_text then Some (JArr [JStr ''Departure''])
      else None)"

fun is_JStr :: "jsvalue \<Rightarrow> bool" where
  "is_JStr (JStr s) = True"
| "is_JStr v = False"

definition sample_enum :: AppState_enum where
  "sample_enum =
     \<lparr> PLANNING = 0, GENERATING_INITIAL_SEGMENT = 1, READY_TO_PLAY = 2, PLAYING = 3 \<rparr>"

definition sample_route :: RouteDetails where
  "sample_route =
     \<lparr> startAddress = ''Quay'', endAddress = ''Mill'', distance = ''120 m'',
       duration = ''2 mins'', durationSeconds = 90, travelMode = WALKING,
       voiceName = ''Kore'', storyStyle = NOIR \<rparr>"

definition sample_buffer :: AudioBuffer where
  "sample_buffer = \<lparr> buffer_duration = 40 \<rparr>"

definition working_backend :: Backend where
  "working_backend =
     \<lparr> outline_call =
         Settles 900 (Resolved \<lparr> response_text = Some sample_outline_text,
                                  response_audioData = None \<rparr>),
       segment_call =
         Settles 2000 (Resolved \<lparr> response_text = Some ''Rain on the quay.'',
                                   response_audioData = None \<rparr>),
       audio_call =
         Settles 5000 (Resolved \<lparr> response_text = None,
                                   response_audioData = Some ''UklGRg'' \<rparr>),
       decodeAudioData = (\<lambda>audioData. Settles 10 (Resolved sample_buffer)),
       JSON_parse = JSON_parse_sample \<rparr>"

definition failing_backend :: Backend where
  "failing_backend =
     \<lparr> outline_call = Settles 300 (Rejected (Error ''503'')),
       segment_call = Settles 300 (Rejected (Error ''503'')),
       audio_call = Settles 300 (Rejected (Error ''503'')),
       decodeAudioData = (\<lambda>audioData. Settles 10 (Resolved sample_buffer)),
       JSON_parse = JSON_parse_sample \<rparr>"

text \<open>A service whose answer to the request for the segment text never arrives.\<close>

definition hanging_backend :: Backend where
  "hanging_backend = working_backend\<lparr>segment_call := Pending\<rparr>"

text \<open>A service whose audio arrives after two minutes.\<close>

definition late_backend :: Backend where
  "late_backend =
     working_backend\<lparr>audio_call :=
       Settles 120000 (Resolved \<lparr> response_text = None,
                                   response_audioData = Some ''UklGRg'' \<rparr>)\<rparr>"

text \<open>A service that fails the call for the outline and answers the others.\<close>

definition no_outline_backend :: Backend where
  "no_outline_backend = working_backend\<lparr>outline_call := Settles 300 (Rejected (Error ''503''))\<rparr>"

definition sample_segment :: "int \<Rightarrow> StorySegment" where
  "sample_segment i =
     \<lparr> index = i, segment_text = ''Rain on the quay.'', audioBuffer = Some sample_buffer \<rparr>"

definition sample_story :: AudioStory where
  "sample_story =
     \<lparr> totalSegmentsEstimate = 2, outline = [JStr ''Departure'', JStr ''Departure''],
       segments = [sample_segment 1] \<rparr>"

definition sample_App :: App where
  "sample_App =
     \<lparr> appState = READY_TO_PLAY sample_enum, route = Some sample_route,
       story = Some sample_story, generationError = None, isGeneratingRef = False,
       isBackgroundGenerating = False, currentPlayingIndex = 0 \<rparr>"

text \<open>
  A sequence of handlers: a story is generated and the buffering effect asks for segment 2;
  the journey is ended while that request is in flight; a story is generated again and the
  buffering effect runs.
\<close>

definition reset_trace :: "event list" where
  "reset_trace =
     [GenerateStory sample_route, StorySettled 0 working_backend, Effect,
      Reset,
      GenerateStory sample_route, StorySettled 0 working_backend, Effect]"

definition sample_player :: StoryPlayer where
  "sample_player =
     \<lparr> isPlaying = True, currentSegmentIndex = 0, isBuffering = False,
       audioContextRef = Some \<lparr> currentTime = 25 \<rparr>,
       sourceRef = Some \<lparr> source_buffer = sample_buffer, source_offset = 0 \<rparr>,
       startTimeRef = 10, segmentOffsetRef = 0, indexRef = 0, started_sources = [] \<rparr>"

text \<open>
  Three segments with clips of 40, 30 and 20 seconds, and the story of which the first
  \<open>n\<close> of them have arrived.
\<close>

definition sample_clips :: "StorySegment list" where
  "sample_clips =
     [\<lparr> index = 1, segment_text = ''Rain on the quay.'',
        audioBuffer = Some \<lparr> buffer_duration = 40 \<rparr> \<rparr>,
      \<lparr> index = 2, segment_text = ''The mill wheel turns.'',
        audioBuffer = Some \<lparr> buffer_duration = 30 \<rparr> \<rparr>,
      \<lparr> index = 3, segment_text = ''A lamp in the window.'',
        audioBuffer = Some \<lparr> buffer_duration = 20 \<rparr> \<rparr>]"

definition narration :: "nat \<Rightarrow> AudioStory" where
  "narration n =
     \<lparr> totalSegmentsEstimate = 3, outline = [JStr ''Departure'', JStr ''Road'', JStr ''Arrival''],
       segments = take n sample_clips \<rparr>"

definition sample_planner :: RoutePlanner where
  "sample_planner =
     \<lparr> startAddress_state = ''Quay'', endAddress_state = ''Mill'', manualDuration = 30,
       travelMode_state = WALKING, selectedStyle = NOIR, error_state = None,
       isLoading = False \<rparr>"

definition sample_leg :: "int \<Rightarrow> DirectionsLeg" where
  "sample_leg secs =
     \<lparr> start_address = ''Quay'', end_address = ''Mill'', distance_text = ''900 km'',
       duration_text = ''a while'', duration_value = secs \<rparr>"

section \<open>Properties of services/geminiService.ts\<close>

subsection \<open>The number of segments\<close>

text \<open>
  Claim C9. For every duration, \<^verbatim>\<open>calculateTotalSegments\<close> is the maximum of 1 and the
  ceiling of the duration divided by 45. The result is at least 1, it is 1 for zero and for
  negative durations, and it is the least number of 45-second segments, at least one, that
  cover the duration.
\<close>

theorem calculateTotalSegments_spec:
  "calculateTotalSegments d = max 1 \<lceil>d / 45\<rceil>
   \<and> 1 \<le> calculateTotalSegments d
   \<and> (d \<le> 0 \<longrightarrow> calculateTotalSegments d = 1)
   \<and> d \<le> 45 * real_of_int (calculateTotalSegments d)
   \<and> (\<forall>n\<ge>1. d \<le> 45 * real_of_int n \<longrightarrow> calculateTotalSegments d \<le> n)"
proof -
  have a: "calculateTotalSegments d = max 1 \<lceil>d / 45\<rceil>"
    by (simp add: calculateTotalSegments_def TARGET_SEGMENT_DURATION_SEC_def)
  have b: "d \<le> 0 \<Longrightarrow> \<lceil>d / 45\<rceil> \<le> 0"
    by (simp add: ceiling_le_iff divide_le_0_iff)
  have c: "d \<le> 45 * real_of_int (max 1 \<lceil>d / 45\<rceil>)"
  proof -
    have "d / 45 \<le> real_of_int \<lceil>d / 45\<rceil>" by (rule le_of_int_ceiling)
    also have "\<dots> \<le> real_of_int (max 1 \<lceil>d / 45\<rceil>)" by simp
    finally show ?thesis by simp
  qed
  have e: "max 1 \<lceil>d / 45\<rceil> \<le> n" if "1 \<le> n" "d \<le> 45 * real_of_int n" for n
  proof -
    from that(2) have "d / 45 \<le> real_of_int n" by simp
    then have "\<lceil>d / 45\<rceil> \<le> n" by (simp add: ceiling_le_iff)
    with that(1) show ?thesis by simp
  qed
  from a b c e show ?thesis by (auto simp: max_def)
qed


theorem calculateTotalSegments_spec_witness:
  "(-90::real) \<le> 0 \<and> calculateTotalSegments (-90) = 1
   \<and> (1::int) \<le> 3 \<and> (100::real) \<le> 45 * real_of_int 3 \<and> calculateTotalSegments 100 \<le> 3
   \<and> calculateTotalSegments 100 = 3"
  using calculateTotalSegments_spec [of "-90"] calculateTotalSegments_spec [of 100]
  by simp

subsection \<open>The outline and the segment text\<close>

lemma push_until_eq: "push_until outl n l = outl @ replicate (n - length outl) l"
proof (induction outl n l rule: push_until.induct)
  case (1 outl n l)
  show ?case
  proof (cases "length outl < n")
    case True
    then have "n - length outl = Suc (n - Suc (length outl))" by simp
    with 1 True show ?thesis
      by (subst push_until.simps) (simp add: replicate_app_Cons_same)
  next
    case False
    then show ?thesis by (subst push_until.simps) simp
  qed
qed

lemma length_adjust_length: "length (adjust_length outl n) = n"
  unfolding adjust_length_def push_until_eq by simp

lemma js_index_last: "xs \<noteq> [] \<Longrightarrow> js_index xs (int (length xs) - 1) = Some (last xs)"
proof -
  assume ne: "xs \<noteq> []"
  then have len: "0 < length xs" by simp
  then have "nat (int (length xs) - 1) = length xs - 1" by arith
  with len show ?thesis unfolding js_index_def by (simp add: last_conv_nth ne)
qed

lemma adjust_length_nonempty:
  "xs \<noteq> [] \<Longrightarrow> adjust_length xs n = take n (xs @ replicate (n - length xs) (last xs))"
  unfolding adjust_length_def push_until_eq by (simp add: js_index_last)

lemma outline_of_parsed_length: "outline_of_parsed v n = Inr outl \<Longrightarrow> length outl = n"
  by (cases v) (auto simp: length_adjust_length)

lemma outline_of_parsed_invalid:
  "\<forall>xs. v \<noteq> JArr xs \<Longrightarrow> outline_of_parsed v n = Inl (Error ''Invalid format.'')"
  by (cases v) simp_all

lemma outline_of_response_length:
  "outline_of_response P r n = Inr outl \<Longrightarrow> length outl = n"
  unfolding outline_of_response_def
  by (cases "response_text r"; cases "P (trim (the (response_text r)))")
     (auto simp: outline_of_parsed_length split: if_splits)

lemma outline_of_response_array:
  assumes "response_text r = Some tx" "trim tx \<noteq> []" "P (trim tx) = Some (JArr xs)" "xs \<noteq> []"
  shows "outline_of_response P r n = Inr (take n (xs @ replicate (n - length xs) (last xs)))"
  using assms by (simp add: outline_of_response_def adjust_length_nonempty)

lemma outline_of_response_invalid:
  assumes "response_text r = None \<or> trim (the (response_text r)) = []
           \<or> P (trim (the (response_text r))) = None
           \<or> (\<forall>xs. P (trim (the (response_text r))) \<noteq> Some (JArr xs))"
  shows "\<exists>e. outline_of_response P r n = Inl e"
proof (cases "response_text r")
  case None
  then show ?thesis by (simp add: outline_of_response_def)
next
  case rt: (Some tx)
  show ?thesis
  proof (cases "P (trim tx)")
    case None
    with rt show ?thesis by (simp add: outline_of_response_def)
  next
    case (Some v)
    show ?thesis
    proof (cases "trim tx = []")
      case True
      with rt show ?thesis by (simp add: outline_of_response_def)
    next
      case False
      with assms Some rt have "\<forall>xs. v \<noteq> JArr xs" by simp
      then have "outline_of_parsed v n = Inl (Error ''Invalid format.'')"
        by (rule outline_of_parsed_invalid)
      with Some False rt show ?thesis
        by (simp add: outline_of_response_def)
    qed
  qed
qed

lemma generateStoryOutline_Resolved:
  "generateStoryOutline P (Settles t (Resolved r)) n =
     Settles t (Resolved (case outline_of_response P r n of
                            Inl e \<Rightarrow> replicate n (JStr OUTLINE_FALLBACK) | Inr outl \<Rightarrow> outl))"
  by (cases "outline_of_response P r n")
     (simp_all add: generateStoryOutline_def try_catch_def await_def resolve_def throw_def)

lemma generateStoryOutline_Rejected:
  "generateStoryOutline P (Settles t (Rejected e)) n =
     Settles t (Resolved (replicate n (JStr OUTLINE_FALLBACK)))"
  by (simp add: generateStoryOutline_def try_catch_def await_def resolve_def)

lemma generateStoryOutline_Pending:
  "generateStoryOutline P Pending n = Pending"
  by (simp add: generateStoryOutline_def try_catch_def await_def)

lemmas generateStoryOutline_settled =
  generateStoryOutline_Resolved generateStoryOutline_Rejected generateStoryOutline_Pending

lemma generateSegment_no_text:
  assumes "seg_api = Settles t (Resolved resp)"
    and "response_text resp = None \<or> trim (the (response_text resp)) = []"
  shows "generateSegment seg_api i =
           Settles t (Resolved \<lparr> index = i, segment_text = ''The journey continues...'',
                                 audioBuffer = None \<rparr>)"
proof (cases "response_text resp")
  case None
  with assms(1) show ?thesis
    by (simp add: generateSegment_def try_catch_def await_def resolve_def SEGMENT_FALLBACK_def)
next
  case (Some a)
  with assms show ?thesis
    by (simp add: generateSegment_def try_catch_def await_def resolve_def SEGMENT_FALLBACK_def)
qed

text \<open>
  Claim C7, as the code has it. \<^verbatim>\<open>generateStoryOutline\<close> never rejects, and once the call
  to the service has settled it resolves with an array of exactly \<open>totalSegments\<close> entries.
  The entries are \<open>totalSegments\<close> copies of the placeholder sentence when the call fails, the
  text is missing or trims to the empty string (it is empty or white space only), the trimmed
  text is not JSON, or the parsed value is not an array. When the parsed value is an array
  that is not empty, the entries are its own elements, whatever they are, cut to
  \<open>totalSegments\<close> or filled up with copies of its last element. \<^verbatim>\<open>generateSegment\<close>
  returns the placeholder text when the text of the response is missing or trims to the empty
  string.
\<close>

theorem outline_and_segment_fallback:
  "generateStoryOutline P api n \<noteq> Settles t (Rejected e)
   \<and> (api = Settles t r \<longrightarrow>
        (\<exists>outl. generateStoryOutline P api n = Settles t (Resolved outl) \<and> length outl = n))
   \<and> (api = Settles t (Rejected e) \<or>
        api = Settles t (Resolved resp) \<and>
          (response_text resp = None \<or> trim (the (response_text resp)) = []
           \<or> P (trim (the (response_text resp))) = None
           \<or> (\<forall>xs. P (trim (the (response_text resp))) \<noteq> Some (JArr xs)))
       \<longrightarrow> generateStoryOutline P api n =
             Settles t (Resolved (replicate n
                                    (JStr ''Continue the journey toward the destination.''))))
   \<and> (api = Settles t (Resolved resp) \<and> response_text resp = Some tx \<and> trim tx \<noteq> []
        \<and> P (trim tx) = Some (JArr xs) \<and> xs \<noteq> []
       \<longrightarrow> generateStoryOutline P api n =
             Settles t (Resolved (take n (xs @ replicate (n - length xs) (last xs)))))
   \<and> (seg_api = Settles t (Resolved resp) \<and>
        (response_text resp = None \<or> trim (the (response_text resp)) = [])
       \<longrightarrow> generateSegment seg_api i =
             Settles t (Resolved \<lparr> index = i, segment_text = ''The journey continues...'',
                                   audioBuffer = None \<rparr>))"
proof -
  have a: "generateStoryOutline P api n \<noteq> Settles t (Rejected e)"
  proof (cases api)
    case Pending
    then show ?thesis by (simp add: generateStoryOutline_settled)
  next
    case (Settles u r)
    then show ?thesis by (cases r) (simp_all add: generateStoryOutline_settled)
  qed
  have b: "\<exists>outl. generateStoryOutline P api n = Settles t (Resolved outl) \<and> length outl = n"
    if "api = Settles t r"
  proof (cases r)
    case (Resolved v)
    with that show ?thesis
      by (cases "outline_of_response P v n")
         (simp_all add: generateStoryOutline_settled outline_of_response_length)
  next
    case (Rejected x)
    with that show ?thesis by (simp add: generateStoryOutline_settled)
  qed
  have c: "generateStoryOutline P api n = Settles t (Resolved (replicate n (JStr OUTLINE_FALLBACK)))"
    if "api = Settles t (Rejected e) \<or>
        api = Settles t (Resolved resp) \<and>
          (response_text resp = None \<or> trim (the (response_text resp)) = []
           \<or> P (trim (the (response_text resp))) = None
           \<or> (\<forall>xs. P (trim (the (response_text resp))) \<noteq> Some (JArr xs)))"
  proof -
    from that consider "api = Settles t (Rejected e)"
      | "api = Settles t (Resolved resp)" "\<exists>e. outline_of_response P resp n = Inl e"
      using outline_of_response_invalid [of resp P n] by blast
    then show ?thesis
    proof cases
      case 1
      then show ?thesis by (simp add: generateStoryOutline_settled)
    next
      case 2
      then show ?thesis by (auto simp: generateStoryOutline_settled)
    qed
  qed
  have d: "generateStoryOutline P api n =
             Settles t (Resolved (take n (xs @ replicate (n - length xs) (last xs))))"
    if "api = Settles t (Resolved resp)" "response_text resp = Some tx" "trim tx \<noteq> []"
       "P (trim tx) = Some (JArr xs)" "xs \<noteq> []"
    using that by (simp add: generateStoryOutline_settled outline_of_response_array)
  have f: "generateSegment seg_api i =
             Settles t (Resolved \<lparr> index = i, segment_text = ''The journey continues...'',
                                   audioBuffer = None \<rparr>)"
    if "seg_api = Settles t (Resolved resp)"
       "response_text resp = None \<or> trim (the (response_text resp)) = []"
    using that by (rule generateSegment_no_text)
  from a b c d f show ?thesis unfolding OUTLINE_FALLBACK_def by blast
qed

theorem outline_and_segment_fallback_witness:
  "generateStoryOutline JSON_parse_sample (Settles 300 (Rejected (Error ''503''))) 2 =
     Settles 300 (Resolved [JStr ''Continue the journey toward the destination.'',
                            JStr ''Continue the journey toward the destination.''])
   \<and> generateStoryOutline JSON_parse_sample
        (Settles 900 (Resolved \<lparr> response_text = Some ''{}'', response_audioData = None \<rparr>)) 2 =
     Settles 900 (Resolved [JStr ''Continue the journey toward the destination.'',
                            JStr ''Continue the journey toward the destination.''])
   \<and> generateStoryOutline JSON_parse_sample
        (Settles 900 (Resolved \<lparr> response_text = Some padded_array_text,
                                  response_audioData = None \<rparr>)) 3 =
     Settles 900 (Resolved [JNum 1, JNum 2, JNum 2])
   \<and> generateSegment
        (Settles 2000 (Resolved \<lparr> response_text = Some blank_text,
                                   response_audioData = None \<rparr>)) 4 =
     Settles 2000 (Resolved \<lparr> index = 4, segment_text = ''The journey continues...'',
                               audioBuffer = None \<rparr>)"
proof -
  have tr: "trim ''{}'' = ''{}''" "trim padded_array_text = ''[1, 2]''"
    "trim blank_text = []"
    by (simp_all add: trim_def is_space_def padded_array_text_def blank_text_def)
  have ps: "JSON_parse_sample ''{}'' = Some (JObj [])"
    "JSON_parse_sample ''[1, 2]'' = Some (JArr [JNum 1, JNum 2])"
    by (simp_all add: JSON_parse_sample_def)
  have rp: "replicate 2 x = [x, x]" "replicate (3 - length [a, b]) x = [x]" for x a b :: jsvalue
    by (simp_all add: numeral_2_eq_2)
  show ?thesis
    using
      outline_and_segment_fallback [where P = JSON_parse_sample
        and api = "Settles 300 (Rejected (Error ''503''))"
        and n = 2
        and t = 300
        and e = "Error ''503''"
        and r = "Rejected (Error ''503'')"
        and resp = "\<lparr> response_text = None, response_audioData = None \<rparr>"
        and tx = "''x''"
        and xs = "[JNull]"
        and seg_api = "Pending :: GenerateContentResponse promise"
        and i = 4]
      outline_and_segment_fallback [where P = JSON_parse_sample
        and api = "Settles 900 (Resolved \<lparr> response_text = Some ''{}'', response_audioData = None \<rparr>)"
        and n = 2
        and t = 900
        and e = "Error ''503''"
        and r = "Resolved \<lparr> response_text = Some ''{}'', response_audioData = None \<rparr>"
        and resp = "\<lparr> response_text = Some ''{}'', response_audioData = None \<rparr>"
        and tx = "''x''"
        and xs = "[JNull]"
        and seg_api = "Pending :: GenerateContentResponse promise"
        and i = 4]
      outline_and_segment_fallback [where P = JSON_parse_sample
        and api = "Settles 900 (Resolved \<lparr> response_text = Some padded_array_text, response_audioData = None \<rparr>)"
        and n = 3
        and t = 900
        and e = "Error ''503''"
        and r = "Rejected (Error ''503'')"
        and resp = "\<lparr> response_text = Some padded_array_text, response_audioData = None \<rparr>"
        and tx = "padded_array_text"
        and xs = "[JNum 1, JNum 2]"
        and seg_api = "Pending :: GenerateContentResponse promise"
        and i = 4]
      outline_and_segment_fallback [where P = JSON_parse_sample
        and api = "Pending :: GenerateContentResponse promise"
        and n = 2
        and t = 2000
        and e = "Error ''503''"
        and r = "Rejected (Error ''503'')"
        and resp = "\<lparr> response_text = Some blank_text, response_audioData = None \<rparr>"
        and tx = "''x''"
        and xs = "[JNull]"
        and seg_api = "Settles 2000 (Resolved \<lparr> response_text = Some blank_text, response_audioData = None \<rparr>)"
        and i = 4]
    by (simp add: tr ps rp)
qed

text \<open>
  The claim as the specification words it asks for an array of strings, and for the
  placeholder array whenever the result of the service is invalid. The service may answer
  with the JSON text \<^verbatim>\<open>[1, 2]\<close>: the outline is then the two numbers. It may answer
  \<^verbatim>\<open>[]\<close>: the outline is then \<^verbatim>\<open>undefined\<close> twice.
\<close>

theorem generateStoryOutline_not_strings:
  "generateStoryOutline JSON_parse_sample
     (Settles 900 (Resolved \<lparr> response_text = Some ''[1, 2]'', response_audioData = None \<rparr>)) 2
   = Settles 900 (Resolved [JNum 1, JNum 2])
   \<and> \<not> list_all is_JStr [JNum 1, JNum 2]
   \<and> generateStoryOutline JSON_parse_sample
     (Settles 900 (Resolved \<lparr> response_text = Some ''[]'', response_audioData = None \<rparr>)) 2
   = Settles 900 (Resolved [JUndefined, JUndefined])
   \<and> \<not> list_all is_JStr [JUndefined, JUndefined]"
  by (simp add: generateStoryOutline_Resolved outline_of_response_def trim_def is_space_def
        JSON_parse_sample_def js_index_def push_until_eq adjust_length_def numeral_2_eq_2)

section \<open>Properties of App.tsx\<close>

subsection \<open>Timeouts\<close>

lemma setTimeout_delay_small: "ms < 2 ^ 31 \<Longrightarrow> setTimeout_delay ms = ms"
  by (simp add: setTimeout_delay_def)

lemma setTimeout_delay_app [simp]:
  "setTimeout_delay 60000 = 60000" "setTimeout_delay 100000 = 100000"
  by (simp_all add: setTimeout_delay_def)

lemma withTimeout_cases:
  "withTimeout p ms msg =
     (case p of
        Pending \<Rightarrow> Settles (setTimeout_delay ms) (Rejected (Error msg))
      | Settles t r \<Rightarrow>
          if t \<le> setTimeout_delay ms then Settles t r
          else Settles (setTimeout_delay ms) (Rejected (Error msg)))"
proof (cases p)
  case Pending
  then show ?thesis by (simp add: withTimeout_def Promise_race_def promise_then_def)
next
  case (Settles t r)
  then show ?thesis
    by (cases r) (simp_all add: withTimeout_def Promise_race_def promise_then_def)
qed

lemma withTimeout_bounded:
  "\<exists>t r. withTimeout p ms msg = Settles t r \<and> t \<le> setTimeout_delay ms"
  by (cases p) (simp_all add: withTimeout_cases)

lemma await_bounded:
  assumes "p = Settles t r" "t \<le> a" "\<And>v. \<exists>u s. k v = Settles u s \<and> u \<le> b"
  shows "\<exists>u s. await p k = Settles u s \<and> u \<le> a + b"
proof (cases r)
  case (Resolved v)
  from assms(3) obtain u s where "k v = Settles u s" "u \<le> b" by blast
  with assms(1,2) Resolved show ?thesis by (simp add: await_def)
next
  case (Rejected e)
  with assms(1,2) show ?thesis by (simp add: await_def)
qed

lemma await_withTimeout_bounded:
  assumes "\<And>v. \<exists>u s. k v = Settles u s \<and> u \<le> b" "setTimeout_delay ms = ms"
  shows "\<exists>u s. await (withTimeout p ms msg) k = Settles u s \<and> u \<le> ms + b"
proof -
  obtain t r where "withTimeout p ms msg = Settles t r" "t \<le> ms"
    using withTimeout_bounded [of p ms msg] assms(2) by auto
  then show ?thesis using assms(1) by (rule await_bounded)
qed

lemma resolve_bounded: "\<exists>u s. resolve v = Settles u s \<and> u \<le> 0"
  by (simp add: resolve_def)

lemma generateNextSegment_chain_bounded:
  "\<exists>t r. generateNextSegment_chain B idx = Settles t r \<and> t \<le> 160000"
proof -
  have "\<exists>u s. generateNextSegment_chain B idx = Settles u s \<and> u \<le> 60000 + (100000 + 0)"
    unfolding generateNextSegment_chain_def
    by (intro await_withTimeout_bounded resolve_bounded setTimeout_delay_app)
  then show ?thesis by simp
qed

lemma handleGenerateStory_chain_bounded:
  "\<exists>t r. handleGenerateStory_chain B details = Settles t r \<and> t \<le> 220000"
proof -
  have "\<exists>u s. handleGenerateStory_chain B details = Settles u s \<and> u \<le> 60000 + (60000 + (100000 + 0))"
    unfolding handleGenerateStory_chain_def Let_def
    by (intro await_withTimeout_bounded resolve_bounded setTimeout_delay_app)
  then show ?thesis by simp
qed

lemma generateSegment_Pending: "generateSegment Pending i = Pending"
  by (simp add: generateSegment_def try_catch_def await_def)

lemma generateSegmentAudio_Pending: "generateSegmentAudio D Pending = Pending"
  by (simp add: generateSegmentAudio_def try_catch_def await_def)

lemma withTimeout_Resolved:
  "withTimeout p ms msg = Settles t (Resolved v) \<Longrightarrow> p = Settles t (Resolved v)"
  by (cases p) (auto simp: withTimeout_cases split: if_splits)

lemma await_Resolved:
  assumes "await p k = Settles t (Resolved w)"
  shows "\<exists>t1 v t2. p = Settles t1 (Resolved v) \<and> k v = Settles t2 (Resolved w)"
proof (cases p)
  case Pending
  with assms show ?thesis by (simp add: await_def)
next
  case (Settles t1 r)
  show ?thesis
  proof (cases r)
    case (Resolved v)
    with Settles assms have "delay t1 (k v) = Settles t (Resolved w)" by (simp add: await_def)
    then have "\<exists>t2. k v = Settles t2 (Resolved w)" by (cases "k v") auto
    with Settles Resolved show ?thesis by blast
  next
    case (Rejected e)
    with Settles assms show ?thesis by (simp add: await_def)
  qed
qed

lemma generateSegment_index:
  assumes "generateSegment api i = Settles t (Resolved seg)"
  shows "index seg = i"
proof (cases api)
  case Pending
  with assms show ?thesis by (simp add: generateSegment_def try_catch_def await_def)
next
  case (Settles u r)
  with assms show ?thesis
    by (cases r) (auto simp: generateSegment_def try_catch_def await_def resolve_def throw_def)
qed

lemma generateNextSegment_chain_index:
  assumes "generateNextSegment_chain B idx = Settles t (Resolved (segmentData, buf))"
  shows "index segmentData = idx"
proof -
  from await_Resolved [OF assms [unfolded generateNextSegment_chain_def]]
  obtain t1 v t2 where
    p: "withTimeout (generateSegment (segment_call B) idx) 60000
          (''Text generation timed out for segment '' @ number_to_string idx)
        = Settles t1 (Resolved v)"
    and k: "await (withTimeout (generateSegmentAudio (decodeAudioData B) (audio_call B)) 100000
              (''Audio generation timed out for segment '' @ number_to_string idx))
             (\<lambda>audioBuffer. resolve (v, audioBuffer)) = Settles t2 (Resolved (segmentData, buf))"
    by blast
  from await_Resolved [OF k]
  obtain t4 a where "resolve (v, a) = Settles t4 (Resolved (segmentData, buf))"
    by blast
  then have "v = segmentData" by (simp add: resolve_def)
  moreover from p have "index v = idx"
    by (blast dest: withTimeout_Resolved generateSegment_index)
  ultimately show ?thesis by simp
qed

lemma handleGenerateStory_chain_segments:
  assumes "handleGenerateStory_chain B details = Settles t (Resolved st)"
  shows "\<exists>seg. segments st = [seg]"
proof -
  from await_Resolved [OF assms [unfolded handleGenerateStory_chain_def Let_def]]
  obtain outl t2 where
    k1: "await (withTimeout (generateSegment (segment_call B) 1) 60000
                 ''Initial text generation timed out'')
          (\<lambda>seg1Data.
        await (withTimeout (generateSegmentAudio (decodeAudioData B) (audio_call B)) 100000
                 ''Initial audio generation timed out'')
          (\<lambda>seg1Audio.
             resolve \<lparr> totalSegmentsEstimate =
                         calculateTotalSegments (real_of_int (durationSeconds details)),
                       outline = outl,
                       segments = [seg1Data\<lparr>audioBuffer := Some seg1Audio\<rparr>] \<rparr>))
     = Settles t2 (Resolved st)"
    by blast
  from await_Resolved [OF k1]
  obtain seg1Data t4 where
    k2: "await (withTimeout (generateSegmentAudio (decodeAudioData B) (audio_call B)) 100000
                 ''Initial audio generation timed out'')
          (\<lambda>seg1Audio.
             resolve \<lparr> totalSegmentsEstimate =
                         calculateTotalSegments (real_of_int (durationSeconds details)),
                       outline = outl,
                       segments = [seg1Data\<lparr>audioBuffer := Some seg1Audio\<rparr>] \<rparr>)
     = Settles t4 (Resolved st)"
    by blast
  from await_Resolved [OF k2]
  obtain seg1Audio t6 where
    "resolve \<lparr> totalSegmentsEstimate =
                         calculateTotalSegments (real_of_int (durationSeconds details)),
                       outline = outl,
                       segments = [seg1Data\<lparr>audioBuffer := Some seg1Audio\<rparr>] \<rparr>
     = Settles t6 (Resolved st)"
    by blast
  then show ?thesis by (auto simp: resolve_def)
qed

lemma list_ex_index: "list_ex (\<lambda>s. index s = idx) segs = (idx \<in> set (map index segs))"
  by (auto simp: list_ex_iff)

lemma distinct_map_sort_key: "distinct (map f (sort_key f xs)) = distinct (map f xs)"
  by (simp add: distinct_map)

lemma segments_ok_insert:
  assumes "segments_ok segs" "index seg \<notin> set (map index segs)"
  shows "segments_ok (sort_key index (segs @ [seg]))"
  using assms unfolding segments_ok_def
  by (simp add: distinct_map_sort_key sorted_sort_key)

lemma setStory_updater_ok:
  assumes "story_ok prev" "index seg = idx"
  shows "story_ok (setStory_updater idx seg prev)"
proof (cases prev)
  case None
  then show ?thesis by (simp add: setStory_updater_def story_ok_def)
next
  case (Some p)
  show ?thesis
  proof (cases "idx \<in> set (map index (segments p))")
    case True
    with Some assms show ?thesis
      by (simp add: setStory_updater_def list_ex_index del: set_map)
  next
    case False
    with assms Some have "segments_ok (sort_key index (segments p @ [seg]))"
      by (intro segments_ok_insert) (simp_all add: story_ok_def del: set_map)
    with False Some show ?thesis
      by (simp add: setStory_updater_def list_ex_index story_ok_def del: set_map)
  qed
qed

lemma generateNextSegment_settle_ok:
  assumes "story_ok (story s)" "generateNextSegment_chain B idx = Settles t outcome"
  shows "story_ok (story (generateNextSegment_settle idx outcome s))"
proof (cases outcome)
  case (Resolved pr)
  obtain segmentData buf where pr: "pr = (segmentData, buf)" by (cases pr)
  with assms(2) Resolved have "index segmentData = idx"
    by (simp add: generateNextSegment_chain_index)
  then have "index (segmentData\<lparr>audioBuffer := Some buf\<rparr>) = idx" by simp
  with assms(1) have "story_ok (setStory_updater idx (segmentData\<lparr>audioBuffer := Some buf\<rparr>) (story s))"
    by (rule setStory_updater_ok)
  with Resolved pr show ?thesis by (simp add: generateNextSegment_settle_def)
next
  case (Rejected e)
  with assms(1) show ?thesis by (simp add: generateNextSegment_settle_def)
qed

lemma handleGenerateStory_settle_ok:
  assumes "story_ok (story s)" "handleGenerateStory_chain B details = Settles t outcome"
  shows "story_ok (story (handleGenerateStory_settle E outcome s))"
proof (cases outcome)
  case (Resolved st)
  with assms(2) obtain seg where "segments st = [seg]"
    by (blast dest: handleGenerateStory_chain_segments)
  with Resolved show ?thesis
    by (simp add: handleGenerateStory_settle_def story_ok_def segments_ok_def)
next
  case (Rejected e)
  with assms(1) show ?thesis by (simp add: handleGenerateStory_settle_def)
qed

lemma generateNextSegment_begin_story:
  "story (fst (generateNextSegment_begin idx s)) = story s"
  by (simp add: generateNextSegment_begin_def)

lemma step_story_ok:
  assumes "story_ok (story (app sys))"
  shows "story_ok (story (app (step E sys ev)))"
proof (cases ev)
  case Effect
  show ?thesis
  proof (cases "bufferingEffect E (app sys)")
    case None
    with Effect assms show ?thesis by simp
  next
    case (Some idx)
    with Effect assms generateNextSegment_begin_story [of idx "app sys"] show ?thesis
      by (cases "generateNextSegment_begin idx (app sys)") simp
  qed
next
  case (SegmentSettled k B)
  show ?thesis
  proof (cases "k < length (inflight sys)")
    case True
    show ?thesis
    proof (cases "generateNextSegment_chain B (inflight sys ! k)")
      case Pending
      with SegmentSettled True assms show ?thesis by simp
    next
      case (Settles t outcome)
      with assms have "story_ok (story (generateNextSegment_settle (inflight sys ! k) outcome (app sys)))"
        by (intro generateNextSegment_settle_ok)
      with SegmentSettled True Settles show ?thesis by simp
    qed
  next
    case False
    with SegmentSettled assms show ?thesis by simp
  qed
next
  case (GenerateStory details)
  with assms show ?thesis by (simp add: handleGenerateStory_begin_def)
next
  case (StorySettled k B)
  show ?thesis
  proof (cases "k < length (starting sys)")
    case True
    show ?thesis
    proof (cases "handleGenerateStory_chain B (starting sys ! k)")
      case Pending
      with StorySettled True assms show ?thesis by simp
    next
      case (Settles t outcome)
      with assms have "story_ok (story (handleGenerateStory_settle E outcome (app sys)))"
        by (intro handleGenerateStory_settle_ok)
      with StorySettled True Settles show ?thesis by simp
    qed
  next
    case False
    with StorySettled assms show ?thesis by simp
  qed
next
  case Reset
  then show ?thesis by (simp add: handleReset_def story_ok_def)
next
  case (SegmentChange i)
  with assms show ?thesis by simp
qed

lemma run_story_ok:
  "story_ok (story (app sys)) \<Longrightarrow> story_ok (story (app (run E sys evs)))"
  unfolding run_def by (induction evs arbitrary: sys) (simp_all add: step_story_ok)


lemma generateStoryOutline_in_time:
  assumes "outline_call B = Settles t0 r0"
  shows "\<exists>outl. generateStoryOutline (JSON_parse B) (outline_call B) n = Settles t0 (Resolved outl)"
proof (cases r0)
  case (Resolved v)
  with assms show ?thesis by (simp add: generateStoryOutline_Resolved)
next
  case (Rejected e)
  with assms show ?thesis by (simp add: generateStoryOutline_Rejected)
qed

lemma generateSegment_Resolved:
  "\<exists>seg. generateSegment (Settles t1 (Resolved resp)) i = Settles t1 (Resolved seg)"
  by (simp add: generateSegment_def try_catch_def await_def resolve_def)

lemma initial_outline_timeout:
  assumes "outline_call B = Pending"
  shows "handleGenerateStory_chain B details =
           Settles 60000 (Rejected (Error ''Story outline generation timed out''))"
  using assms
  by (simp add: handleGenerateStory_chain_def generateStoryOutline_Pending withTimeout_cases
        await_def)

lemma initial_text_timeout:
  assumes "outline_call B = Settles t0 r0" "t0 \<le> 60000" "segment_call B = Pending"
  shows "handleGenerateStory_chain B details =
           Settles (t0 + 60000) (Rejected (Error ''Initial text generation timed out''))"
proof -
  from generateStoryOutline_in_time [OF assms(1)] obtain outl where
    "generateStoryOutline (JSON_parse B) (outline_call B)
       (nat (calculateTotalSegments (real_of_int (durationSeconds details))))
     = Settles t0 (Resolved outl)" by blast
  with assms(2,3) show ?thesis
    by (simp add: handleGenerateStory_chain_def generateSegment_Pending withTimeout_cases
          await_def)
qed

lemma initial_audio_timeout:
  assumes "outline_call B = Settles t0 r0" "t0 \<le> 60000"
    and "segment_call B = Settles t1 (Resolved resp)" "t1 \<le> 60000"
    and "audio_call B = Pending"
  shows "handleGenerateStory_chain B details =
           Settles (t0 + (t1 + 100000)) (Rejected (Error ''Initial audio generation timed out''))"
proof -
  from generateStoryOutline_in_time [OF assms(1)] obtain outl where
    "generateStoryOutline (JSON_parse B) (outline_call B)
       (nat (calculateTotalSegments (real_of_int (durationSeconds details))))
     = Settles t0 (Resolved outl)" by blast
  moreover obtain seg where "generateSegment (segment_call B) 1 = Settles t1 (Resolved seg)"
    using generateSegment_Resolved [of t1 resp 1] assms(3) by auto
  ultimately show ?thesis using assms(2,4,5)
    by (simp add: handleGenerateStory_chain_def generateSegmentAudio_Pending withTimeout_cases
          await_def)
qed

lemma background_text_timeout:
  assumes "segment_call B = Pending"
  shows "generateNextSegment_chain B idx =
           Settles 60000 (Rejected (Error (''Text generation timed out for segment ''
                                            @ number_to_string idx)))"
  using assms
  by (simp add: generateNextSegment_chain_def generateSegment_Pending withTimeout_cases await_def)

lemma background_audio_timeout:
  assumes "segment_call B = Settles t1 (Resolved resp)" "t1 \<le> 60000"
    and "audio_call B = Pending"
  shows "generateNextSegment_chain B idx =
           Settles (t1 + 100000) (Rejected (Error (''Audio generation timed out for segment ''
                                            @ number_to_string idx)))"
proof -
  obtain seg where "generateSegment (segment_call B) idx = Settles t1 (Resolved seg)"
    using generateSegment_Resolved [of t1 resp idx] assms(1) by auto
  then show ?thesis using assms(2,3)
    by (simp add: generateNextSegment_chain_def generateSegmentAudio_Pending withTimeout_cases
          await_def)
qed

lemma await_withTimeout_late:
  assumes "setTimeout_delay ms = ms" "p = Pending \<or> (\<exists>t r. p = Settles t r \<and> ms < t)"
  shows "await (withTimeout p ms msg) k = Settles ms (Rejected (Error msg))"
  using assms by (auto simp: withTimeout_cases await_def)

lemma await_withTimeout_Rejected:
  assumes "setTimeout_delay ms = ms" "p = Settles t (Rejected e)" "t \<le> ms"
  shows "await (withTimeout p ms msg) k = Settles t (Rejected e)"
  using assms by (simp add: withTimeout_cases await_def)

lemma await_withTimeout_Resolved:
  assumes "setTimeout_delay ms = ms" "p = Settles t (Resolved v)" "t \<le> ms"
  shows "await (withTimeout p ms msg) k = delay t (k v)"
  using assms by (simp add: withTimeout_cases await_def)

lemmas await_withTimeout_60000 =
  await_withTimeout_late [OF setTimeout_delay_app(1)]
  await_withTimeout_Rejected [OF setTimeout_delay_app(1)]
  await_withTimeout_Resolved [OF setTimeout_delay_app(1)]

lemmas await_withTimeout_100000 =
  await_withTimeout_late [OF setTimeout_delay_app(2)]
  await_withTimeout_Rejected [OF setTimeout_delay_app(2)]
  await_withTimeout_Resolved [OF setTimeout_delay_app(2)]

text \<open>What the background chain returns, by what its two calls do.\<close>

lemma background_text_late:
  assumes "generateSegment (segment_call B) idx = Pending
           \<or> (\<exists>t r. generateSegment (segment_call B) idx = Settles t r \<and> 60000 < t)"
  shows "generateNextSegment_chain B idx =
           Settles 60000 (Rejected (Error (''Text generation timed out for segment ''
                                            @ number_to_string idx)))"
  unfolding generateNextSegment_chain_def using assms by (rule await_withTimeout_60000(1))

lemma background_text_Rejected:
  assumes "generateSegment (segment_call B) idx = Settles t1 (Rejected e)" "t1 \<le> 60000"
  shows "generateNextSegment_chain B idx = Settles t1 (Rejected e)"
  unfolding generateNextSegment_chain_def using assms by (rule await_withTimeout_60000(2))

lemma background_text_Resolved:
  assumes "generateSegment (segment_call B) idx = Settles t1 (Resolved seg)" "t1 \<le> 60000"
  shows "generateNextSegment_chain B idx =
           delay t1
             (await (withTimeout (generateSegmentAudio (decodeAudioData B) (audio_call B)) 100000
                       (''Audio generation timed out for segment '' @ number_to_string idx))
                (\<lambda>audioBuffer. resolve (seg, audioBuffer)))"
  unfolding generateNextSegment_chain_def using assms by (rule await_withTimeout_60000(3))

lemma background_audio_late:
  assumes "generateSegment (segment_call B) idx = Settles t1 (Resolved seg)" "t1 \<le> 60000"
    and "generateSegmentAudio (decodeAudioData B) (audio_call B) = Pending
         \<or> (\<exists>t r. generateSegmentAudio (decodeAudioData B) (audio_call B) = Settles t r
                    \<and> 100000 < t)"
  shows "generateNextSegment_chain B idx =
           Settles (t1 + 100000)
             (Rejected (Error (''Audio generation timed out for segment ''
                                @ number_to_string idx)))"
  unfolding background_text_Resolved [OF assms(1,2)]
  by (simp add: await_withTimeout_100000(1) [OF assms(3)])

lemma background_audio_Rejected:
  assumes "generateSegment (segment_call B) idx = Settles t1 (Resolved seg)" "t1 \<le> 60000"
    and "generateSegmentAudio (decodeAudioData B) (audio_call B) = Settles t2 (Rejected e)"
    and "t2 \<le> 100000"
  shows "generateNextSegment_chain B idx = Settles (t1 + t2) (Rejected e)"
  unfolding background_text_Resolved [OF assms(1,2)]
  by (simp add: await_withTimeout_100000(2) [OF assms(3,4)])

lemma background_audio_Resolved:
  assumes "generateSegment (segment_call B) idx = Settles t1 (Resolved seg)" "t1 \<le> 60000"
    and "generateSegmentAudio (decodeAudioData B) (audio_call B) = Settles t2 (Resolved buf)"
    and "t2 \<le> 100000"
  shows "generateNextSegment_chain B idx = Settles (t1 + t2) (Resolved (seg, buf))"
  unfolding background_text_Resolved [OF assms(1,2)]
  by (simp add: await_withTimeout_100000(3) [OF assms(3,4)] resolve_def)

text \<open>What the chain of the initial generation returns, by what its three calls do.\<close>

lemma initial_outline_late:
  assumes "generateStoryOutline (JSON_parse B) (outline_call B)
             (nat (calculateTotalSegments (real_of_int (durationSeconds details)))) = Pending
           \<or> (\<exists>t r. generateStoryOutline (JSON_parse B) (outline_call B)
                        (nat (calculateTotalSegments (real_of_int (durationSeconds details))))
                      = Settles t r \<and> 60000 < t)"
  shows "handleGenerateStory_chain B details =
           Settles 60000 (Rejected (Error ''Story outline generation timed out''))"
  unfolding handleGenerateStory_chain_def Let_def using assms
  by (rule await_withTimeout_60000(1))

lemma initial_outline_Resolved:
  assumes "generateStoryOutline (JSON_parse B) (outline_call B)
             (nat (calculateTotalSegments (real_of_int (durationSeconds details))))
           = Settles t0 (Resolved outl)" "t0 \<le> 60000"
  shows "handleGenerateStory_chain B details =
           delay t0
             (await (withTimeout (generateSegment (segment_call B) 1) 60000
                       ''Initial text generation timed out'')
                (\<lambda>seg1Data.
              await (withTimeout (generateSegmentAudio (decodeAudioData B) (audio_call B)) 100000
                       ''Initial audio generation timed out'')
                (\<lambda>seg1Audio.
                   resolve \<lparr> totalSegmentsEstimate =
                               calculateTotalSegments (real_of_int (durationSeconds details)),
                             outline = outl,
                             segments = [seg1Data\<lparr>audioBuffer := Some seg1Audio\<rparr>] \<rparr>)))"
  unfolding handleGenerateStory_chain_def Let_def using assms
  by (rule await_withTimeout_60000(3))

lemma initial_text_late:
  assumes "generateStoryOutline (JSON_parse B) (outline_call B)
             (nat (calculateTotalSegments (real_of_int (durationSeconds details))))
           = Settles t0 (Resolved outl)" "t0 \<le> 60000"
    and "generateSegment (segment_call B) 1 = Pending
         \<or> (\<exists>t r. generateSegment (segment_call B) 1 = Settles t r \<and> 60000 < t)"
  shows "handleGenerateStory_chain B details =
           Settles (t0 + 60000) (Rejected (Error ''Initial text generation timed out''))"
  unfolding initial_outline_Resolved [OF assms(1,2)]
  by (simp add: await_withTimeout_60000(1) [OF assms(3)])

lemma initial_text_Rejected:
  assumes "generateStoryOutline (JSON_parse B) (outline_call B)
             (nat (calculateTotalSegments (real_of_int (durationSeconds details))))
           = Settles t0 (Resolved outl)" "t0 \<le> 60000"
    and "generateSegment (segment_call B) 1 = Settles t1 (Rejected e)" "t1 \<le> 60000"
  shows "handleGenerateStory_chain B details = Settles (t0 + t1) (Rejected e)"
  unfolding initial_outline_Resolved [OF assms(1,2)]
  by (simp add: await_withTimeout_60000(2) [OF assms(3,4)])

lemma initial_audio_late:
  assumes "generateStoryOutline (JSON_parse B) (outline_call B)
             (nat (calculateTotalSegments (real_of_int (durationSeconds details))))
           = Settles t0 (Resolved outl)" "t0 \<le> 60000"
    and "generateSegment (segment_call B) 1 = Settles t1 (Resolved seg)" "t1 \<le> 60000"
    and "generateSegmentAudio (decodeAudioData B) (audio_call B) = Pending
         \<or> (\<exists>t r. generateSegmentAudio (decodeAudioData B) (audio_call B) = Settles t r
                    \<and> 100000 < t)"
  shows "handleGenerateStory_chain B details =
           Settles (t0 + (t1 + 100000))
             (Rejected (Error ''Initial audio generation timed out''))"
  unfolding initial_outline_Resolved [OF assms(1,2)]
  by (simp add: await_withTimeout_60000(3) [OF assms(3,4)]
        await_withTimeout_100000(1) [OF assms(5)])

lemma initial_audio_Rejected:
  assumes "generateStoryOutline (JSON_parse B) (outline_call B)
             (nat (calculateTotalSegments (real_of_int (durationSeconds details))))
           = Settles t0 (Resolved outl)" "t0 \<le> 60000"
    and "generateSegment (segment_call B) 1 = Settles t1 (Resolved seg)" "t1 \<le> 60000"
    and "generateSegmentAudio (decodeAudioData B) (audio_call B) = Settles t2 (Rejected e)"
    and "t2 \<le> 100000"
  shows "handleGenerateStory_chain B details = Settles (t0 + (t1 + t2)) (Rejected e)"
  unfolding initial_outline_Resolved [OF assms(1,2)]
  by (simp add: await_withTimeout_60000(3) [OF assms(3,4)]
        await_withTimeout_100000(2) [OF assms(5,6)])

lemma initial_audio_Resolved:
  assumes "generateStoryOutline (JSON_parse B) (outline_call B)
             (nat (calculateTotalSegments (real_of_int (durationSeconds details))))
           = Settles t0 (Resolved outl)" "t0 \<le> 60000"
    and "generateSegment (segment_call B) 1 = Settles t1 (Resolved seg)" "t1 \<le> 60000"
    and "generateSegmentAudio (decodeAudioData B) (audio_call B) = Settles t2 (Resolved buf)"
    and "t2 \<le> 100000"
  shows "handleGenerateStory_chain B details =
           Settles (t0 + (t1 + t2))
             (Resolved \<lparr> totalSegmentsEstimate =
                           calculateTotalSegments (real_of_int (durationSeconds details)),
                         outline = outl,
                         segments = [seg\<lparr>audioBuffer := Some buf\<rparr>] \<rparr>)"
  unfolding initial_outline_Resolved [OF assms(1,2)]
  by (simp add: await_withTimeout_60000(3) [OF assms(3,4)]
        await_withTimeout_100000(3) [OF assms(5,6)] resolve_def)



subsection \<open>Evaluation on the sample data\<close>

lemma trim_samples:
  "trim sample_outline_text = sample_outline_text"
  "trim ''Rain on the quay.'' = ''Rain on the quay.''"
  by (simp_all add: trim_def is_space_def sample_outline_text_def)

lemma calculateTotalSegments_90: "calculateTotalSegments 90 = 2"
  by (simp add: calculateTotalSegments_def TARGET_SEGMENT_DURATION_SEC_def)

lemma outline_working:
  "generateStoryOutline JSON_parse_sample (outline_call working_backend) 2 =
     Settles 900 (Resolved [JStr ''Departure'', JStr ''Departure''])"
proof -
  have "sample_outline_text \<noteq> []" "sample_outline_text \<noteq> ''[]''"
    "sample_outline_text \<noteq> ''[1, 2]''" "sample_outline_text \<noteq> ''{}''"
    by (simp_all add: sample_outline_text_def)
  then have "outline_of_response JSON_parse_sample
          \<lparr> response_text = Some sample_outline_text, response_audioData = None \<rparr> 2
        = Inr [JStr ''Departure'', JStr ''Departure'']"
    by (simp add: outline_of_response_def trim_samples JSON_parse_sample_def adjust_length_def
          push_until_eq js_index_def numeral_2_eq_2)
  then show ?thesis
    by (simp add: working_backend_def generateStoryOutline_Resolved)
qed

lemma segment_working:
  "generateSegment (segment_call working_backend) i =
     Settles 2000 (Resolved \<lparr> index = i, segment_text = ''Rain on the quay.'',
                              audioBuffer = None \<rparr>)"
  by (simp add: working_backend_def generateSegment_def try_catch_def await_def resolve_def
        trim_samples)

lemma audio_working:
  "generateSegmentAudio (decodeAudioData working_backend) (audio_call working_backend) =
     Settles 5010 (Resolved sample_buffer)"
  by (simp add: working_backend_def generateSegmentAudio_def try_catch_def await_def)

lemma handleGenerateStory_chain_working:
  "handleGenerateStory_chain working_backend sample_route = Settles 7910 (Resolved sample_story)"
proof -
  have "JSON_parse working_backend = JSON_parse_sample" by (simp add: working_backend_def)
  then show ?thesis
    by (simp add: handleGenerateStory_chain_def sample_route_def calculateTotalSegments_90
        outline_working segment_working audio_working withTimeout_cases await_def resolve_def
        sample_story_def sample_segment_def)
qed

lemma generateNextSegment_chain_working:
  "generateNextSegment_chain working_backend i =
     Settles 7010 (Resolved (\<lparr> index = i, segment_text = ''Rain on the quay.'',
                               audioBuffer = None \<rparr>, sample_buffer))"
  by (simp add: generateNextSegment_chain_def segment_working audio_working withTimeout_cases
        await_def resolve_def)

lemma generateNextSegment_chain_failing:
  "generateNextSegment_chain failing_backend i = Settles 300 (Rejected (Error ''503''))"
  by (simp add: generateNextSegment_chain_def failing_backend_def generateSegment_def
        try_catch_def await_def throw_def withTimeout_cases)

subsection \<open>The segment list\<close>

text \<open>
  Claim C8. The updater passed to \<^verbatim>\<open>setStory\<close> returns the previous story unchanged when a
  segment with the incoming index is already there, and otherwise appends the new segment
  and sorts the list by index again. It keeps the property that no two segments have the same
  index and that the list is in ascending order of index (the new segment carries the index
  that was requested, as the one made by \<^verbatim>\<open>generateSegment\<close> does); with the other two
  writers of the story, the initial generation and the reset, the property holds after every
  sequence of handlers.
\<close>

theorem segments_sorted_distinct:
  "(idx \<in> set (map index (segments p)) \<longrightarrow> setStory_updater idx seg (Some p) = Some p)
   \<and> (idx \<notin> set (map index (segments p)) \<longrightarrow>
        setStory_updater idx seg (Some p) =
          Some (p\<lparr>segments := sort_key index (segments p @ [seg])\<rparr>))
   \<and> setStory_updater idx seg None = None
   \<and> (story_ok prev \<and> index seg = idx \<longrightarrow> story_ok (setStory_updater idx seg prev))
   \<and> story_ok (story (app (run E (initial_System E) evs)))"
proof -
  have "story_ok (story (app (initial_System E)))"
    by (simp add: initial_System_def initial_App_def story_ok_def)
  then have "story_ok (story (app (run E (initial_System E) evs)))"
    by (rule run_story_ok)
  then show ?thesis
    using setStory_updater_ok [of prev seg idx]
    by (simp add: setStory_updater_def list_ex_index del: set_map)
qed

theorem segments_sorted_distinct_witness:
  "setStory_updater 1 (sample_segment 1)
     (Some (sample_story\<lparr>segments := [sample_segment 1, sample_segment 3]\<rparr>)) =
     Some (sample_story\<lparr>segments := [sample_segment 1, sample_segment 3]\<rparr>)
   \<and> setStory_updater 2 (sample_segment 2)
     (Some (sample_story\<lparr>segments := [sample_segment 1, sample_segment 3]\<rparr>)) =
     Some (sample_story\<lparr>segments := [sample_segment 1, sample_segment 2, sample_segment 3]\<rparr>)
   \<and> story_ok (Some (sample_story\<lparr>segments := [sample_segment 1, sample_segment 3]\<rparr>))
   \<and> story_ok (Some (sample_story\<lparr>segments :=
                         [sample_segment 1, sample_segment 2, sample_segment 3]\<rparr>))
   \<and> story_ok (story (app (run sample_enum (initial_System sample_enum)
                 [GenerateStory sample_route, StorySettled 0 working_backend, Effect,
                  SegmentSettled 0 working_backend])))"
proof -
  have ok: "story_ok (Some (sample_story\<lparr>segments := [sample_segment 1, sample_segment 3]\<rparr>))"
    by (simp add: story_ok_def segments_ok_def sample_segment_def)
  show ?thesis
    using ok
      segments_sorted_distinct [where idx = 1 and seg = "sample_segment 1"
        and p = "sample_story\<lparr>segments := [sample_segment 1, sample_segment 3]\<rparr>"
        and prev = "Some (sample_story\<lparr>segments := [sample_segment 1, sample_segment 3]\<rparr>)"
        and E = sample_enum
        and evs = "[GenerateStory sample_route, StorySettled 0 working_backend, Effect,
                    SegmentSettled 0 working_backend]"]
      segments_sorted_distinct [where idx = 2 and seg = "sample_segment 2"
        and p = "sample_story\<lparr>segments := [sample_segment 1, sample_segment 3]\<rparr>"
        and prev = "Some (sample_story\<lparr>segments := [sample_segment 1, sample_segment 3]\<rparr>)"
        and E = sample_enum
        and evs = "[GenerateStory sample_route, StorySettled 0 working_backend, Effect,
                    SegmentSettled 0 working_backend]"]
    by (simp add: sample_segment_def story_ok_def segments_ok_def)
qed

subsection \<open>The buffering effect\<close>

text \<open>
  The buffering effect calls \<^verbatim>\<open>generateNextSegment\<close> exactly when there are a story and a
  route, the state is at least \<^verbatim>\<open>READY_TO_PLAY\<close>, fewer segments are generated than
  \<open>currentPlayingIndex + 3\<close> and than \<open>totalSegmentsEstimate\<close>, and the guard flag is clear.
  The index it asks for is the number of generated segments plus one, which is at most
  \<open>currentPlayingIndex + 3\<close> and at most the estimated total, and the call passes the guard of
  \<^verbatim>\<open>generateNextSegment\<close>.
\<close>

lemma bufferingEffect_spec:
  "(bufferingEffect E s = Some i) =
     (\<exists>st r. story s = Some st \<and> route s = Some r \<and> READY_TO_PLAY E \<le> appState s
        \<and> int (length (segments st)) < currentPlayingIndex s + 3
        \<and> int (length (segments st)) < totalSegmentsEstimate st
        \<and> \<not> isGeneratingRef s
        \<and> i = int (length (segments st)) + 1
        \<and> i \<le> currentPlayingIndex s + 3
        \<and> i \<le> totalSegmentsEstimate st
        \<and> generateNextSegment_begin i s =
            (s\<lparr>isGeneratingRef := True, isBackgroundGenerating := True\<rparr>, True))"
  by (cases "story s"; cases "route s")
     (auto simp: bufferingEffect_def Let_def generateNextSegment_begin_def)

lemma bufferingEffect_sample:
  "bufferingEffect sample_enum sample_App = Some 2
   \<and> bufferingEffect sample_enum (sample_App\<lparr>isGeneratingRef := True\<rparr>) \<noteq> Some 2"
  using bufferingEffect_spec [of sample_enum sample_App 2]
    bufferingEffect_spec [of sample_enum "sample_App\<lparr>isGeneratingRef := True\<rparr>" 2]
  by (simp add: sample_App_def sample_story_def sample_enum_def generateNextSegment_begin_def)


lemma segment_failing:
  "generateSegment (segment_call failing_backend) i = Settles 300 (Rejected (Error ''503''))"
  by (simp add: failing_backend_def generateSegment_def try_catch_def await_def throw_def)

lemma backend_samples:
  "generateSegment (segment_call late_backend) i =
     Settles 2000 (Resolved \<lparr> index = i, segment_text = ''Rain on the quay.'',
                              audioBuffer = None \<rparr>)"
  "generateSegmentAudio (decodeAudioData late_backend) (audio_call late_backend) =
     Settles 120010 (Resolved sample_buffer)"
  "generateSegment (segment_call hanging_backend) i = Pending"
  "generateStoryOutline (JSON_parse hanging_backend) (outline_call hanging_backend) 2 =
     Settles 900 (Resolved [JStr ''Departure'', JStr ''Departure''])"
  "generateStoryOutline (JSON_parse working_backend) (outline_call working_backend) 2 =
     Settles 900 (Resolved [JStr ''Departure'', JStr ''Departure''])"
proof -
  have w: "JSON_parse working_backend = JSON_parse_sample" by (simp add: working_backend_def)
  show "generateSegment (segment_call late_backend) i =
     Settles 2000 (Resolved \<lparr> index = i, segment_text = ''Rain on the quay.'',
                              audioBuffer = None \<rparr>)"
    using segment_working [of i] by (simp add: late_backend_def)
  show "generateSegmentAudio (decodeAudioData late_backend) (audio_call late_backend) =
     Settles 120010 (Resolved sample_buffer)"
    by (simp add: late_backend_def working_backend_def generateSegmentAudio_def try_catch_def
          await_def)
  show "generateSegment (segment_call hanging_backend) i = Pending"
    by (simp add: hanging_backend_def generateSegment_Pending)
  show "generateStoryOutline (JSON_parse working_backend) (outline_call working_backend) 2 =
     Settles 900 (Resolved [JStr ''Departure'', JStr ''Departure''])"
    using outline_working by (simp add: w)
  then show "generateStoryOutline (JSON_parse hanging_backend) (outline_call hanging_backend) 2 =
     Settles 900 (Resolved [JStr ''Departure'', JStr ''Departure''])"
    by (simp add: hanging_backend_def)
qed


subsection \<open>Errors of the generation\<close>

lemma handleGenerateStory_settle_Rejected:
  "appState (handleGenerateStory_settle E (Rejected e) s) = PLANNING E
   \<and> (generationError (handleGenerateStory_settle E (Rejected e) s) = Some MSG_TIMED_OUT
        \<or> generationError (handleGenerateStory_settle E (Rejected e) s) = Some MSG_COULD_NOT_START)"
  by (simp add: handleGenerateStory_settle_def)

lemma handleGenerateStory_returns:
  "\<exists>t outcome. handleGenerateStory_chain B details = Settles t outcome
     \<and> handleGenerateStory E B details s =
         Some (handleGenerateStory_settle E outcome (handleGenerateStory_begin E details s))"
proof -
  obtain t outcome where "handleGenerateStory_chain B details = Settles t outcome"
    using handleGenerateStory_chain_bounded [of B details] by blast
  then show ?thesis by (simp add: handleGenerateStory_def)
qed

lemma handleGenerateStory_failure:
  assumes "handleGenerateStory_chain B details = Settles t (Rejected e)"
  shows "\<exists>s'. handleGenerateStory E B details s = Some s' \<and> appState s' = PLANNING E
           \<and> (generationError s' = Some MSG_TIMED_OUT
                \<or> generationError s' = Some MSG_COULD_NOT_START)"
  using assms handleGenerateStory_settle_Rejected [of E e "handleGenerateStory_begin E details s"]
  by (simp add: handleGenerateStory_def)

lemma timed_out_messages:
  "includes_str ''Story outline generation timed out'' ''timed out''"
  "includes_str ''Initial text generation timed out'' ''timed out''"
  "includes_str ''Initial audio generation timed out'' ''timed out''"
  by simp_all

lemma handleGenerateStory_timeout:
  assumes "handleGenerateStory_chain B details = Settles t (Rejected (Error m))"
    and "m = ''Story outline generation timed out'' \<or> m = ''Initial text generation timed out''
         \<or> m = ''Initial audio generation timed out''"
  shows "\<exists>s'. handleGenerateStory E B details s = Some s' \<and> appState s' = PLANNING E
           \<and> generationError s' = Some MSG_TIMED_OUT"
proof -
  from assms(2) have "m \<noteq> [] \<and> includes_str m ''timed out''"
    using timed_out_messages by auto
  with assms(1) show ?thesis
    by (simp add: handleGenerateStory_def handleGenerateStory_settle_def)
qed

lemma generateNextSegment_failure:
  assumes "generateNextSegment_chain B idx = Settles t (Rejected e)"
    and "route s \<noteq> None" "story s \<noteq> None" "\<not> isGeneratingRef s"
  shows "generateNextSegment B idx s =
           Some (s\<lparr>isGeneratingRef := False, isBackgroundGenerating := False\<rparr>)"
  using assms
  by (auto simp: generateNextSegment_def generateNextSegment_begin_def
        generateNextSegment_settle_def)

lemma handleGenerateStory_Rejected:
  assumes "handleGenerateStory_chain B details = Settles t (Rejected e)"
  shows "\<exists>s'. handleGenerateStory E B details s = Some s' \<and> appState s' = PLANNING E
           \<and> generationError s' \<noteq> None"
  using handleGenerateStory_failure [OF assms, of E s] by auto

lemma handleGenerateStory_Resolved:
  assumes "handleGenerateStory_chain B details = Settles t (Resolved st)"
  shows "handleGenerateStory E B details s =
           Some (s\<lparr>route := Some details, generationError := None, story := Some st,
                   appState := READY_TO_PLAY E\<rparr>)"
  using assms
  by (simp add: handleGenerateStory_def handleGenerateStory_settle_def
        handleGenerateStory_begin_def)

lemma outline_failure_absorbed:
  assumes "outline_call B = Settles t0 (Rejected e0)"
  shows "generateStoryOutline (JSON_parse B) (outline_call B) n =
           Settles t0 (Resolved (replicate n
                                    (JStr ''Continue the journey toward the destination.'')))"
  using assms by (simp add: generateStoryOutline_Rejected OUTLINE_FALLBACK_def)





subsection \<open>One request at a time\<close>

lemma generateNextSegment_begin_guarded:
  "isGeneratingRef s \<Longrightarrow> generateNextSegment_begin idx s = (s, False)"
  by (simp add: generateNextSegment_begin_def)

lemma generateNextSegment_begin_started:
  "generateNextSegment_begin idx s = (s', True) \<Longrightarrow> \<not> isGeneratingRef s \<and> isGeneratingRef s'"
  by (auto simp: generateNextSegment_begin_def split: if_splits)

lemma generateNextSegment_begin_not_started:
  "generateNextSegment_begin idx s = (s', False) \<Longrightarrow> s' = s"
  by (auto simp: generateNextSegment_begin_def split: if_splits)

lemma generateNextSegment_settle_flag:
  "\<not> isGeneratingRef (generateNextSegment_settle idx outcome s)"
  by (simp add: generateNextSegment_settle_def Let_def)

lemma remove_nth_single: "length xs \<le> 1 \<Longrightarrow> k < length xs \<Longrightarrow> remove_nth k xs = []"
  by (cases xs) (auto simp: remove_nth_def)

lemma step_single_flight:
  assumes "single_flight sys" "ev \<noteq> Reset"
  shows "single_flight (step E sys ev)"
proof (cases ev)
  case Effect
  show ?thesis
  proof (cases "bufferingEffect E (app sys)")
    case None
    with Effect assms show ?thesis by simp
  next
    case (Some idx)
    obtain s1 started where b: "generateNextSegment_begin idx (app sys) = (s1, started)"
      by (cases "generateNextSegment_begin idx (app sys)")
    show ?thesis
    proof (cases started)
      case True
      with b have "\<not> isGeneratingRef (app sys)" "isGeneratingRef s1"
        by (auto dest: generateNextSegment_begin_started)
      with assms(1) have "inflight sys = []" by (auto simp: single_flight_def)
      with Effect Some b True \<open>isGeneratingRef s1\<close> show ?thesis
        by (simp add: single_flight_def)
    next
      case False
      with b have "s1 = app sys" by (auto dest: generateNextSegment_begin_not_started)
      with Effect Some b False assms(1) show ?thesis by (simp add: single_flight_def)
    qed
  qed
next
  case (SegmentSettled k B)
  show ?thesis
  proof (cases "k < length (inflight sys)")
    case True
    show ?thesis
    proof (cases "generateNextSegment_chain B (inflight sys ! k)")
      case Pending
      with SegmentSettled True assms show ?thesis by simp
    next
      case (Settles t outcome)
      from assms(1) True have "remove_nth k (inflight sys) = []"
        by (simp add: single_flight_def remove_nth_single)
      with SegmentSettled True Settles show ?thesis by (simp add: single_flight_def)
    qed
  next
    case False
    with SegmentSettled assms show ?thesis by simp
  qed
next
  case (GenerateStory details)
  with assms(1) show ?thesis by (simp add: single_flight_def handleGenerateStory_begin_def)
next
  case (StorySettled k B)
  show ?thesis
  proof (cases "k < length (starting sys)")
    case True
    show ?thesis
    proof (cases "handleGenerateStory_chain B (starting sys ! k)")
      case Pending
      with StorySettled True assms show ?thesis by simp
    next
      case (Settles t outcome)
      with StorySettled True assms(1) show ?thesis
        by (cases outcome) (simp_all add: single_flight_def handleGenerateStory_settle_def)
    qed
  next
    case False
    with StorySettled assms show ?thesis by simp
  qed
next
  case Reset
  with assms(2) show ?thesis by simp
next
  case (SegmentChange i)
  with assms(1) show ?thesis by (simp add: single_flight_def)
qed

lemma run_single_flight:
  "single_flight sys \<Longrightarrow> Reset \<notin> set evs \<Longrightarrow> single_flight (run E sys evs)"
  unfolding run_def
proof (induction evs arbitrary: sys)
  case Nil
  then show ?case by simp
next
  case (Cons ev evs)
  from Cons.prems have "single_flight (step E sys ev)" by (intro step_single_flight) auto
  with Cons show ?case by simp
qed

lemma single_flight_without_reset:
  "Reset \<notin> set evs \<Longrightarrow> single_flight (run E (initial_System E) evs)"
  by (rule run_single_flight) (simp_all add: single_flight_def initial_System_def)

lemma run_Cons: "run E sys (ev # evs) = run E (step E sys ev) evs"
  by (simp add: run_def)

lemma run_Nil: "run E sys [] = sys"
  by (simp add: run_def)

text \<open>
  Claim C2. At most one segment-generation request is to be outstanding at any time.
  \<^verbatim>\<open>generateNextSegment\<close> does return without a request when the guard is set, sets the guard
  before its first call and clears it when the chain has settled, and as long as no reset
  happens at most one chain is in flight (\<open>single_flight_without_reset\<close>). But
  \<^verbatim>\<open>handleReset\<close> clears the guard and leaves the chain in flight running: after the reset
  and a new initial generation the buffering effect starts a second chain beside the first.
  On the sample sequence one request for segment 2 is in flight before the reset, and two
  are at the end.
\<close>

theorem reset_starts_second_request:
  "inflight (run sample_enum (initial_System sample_enum)
     [GenerateStory sample_route, StorySettled 0 working_backend, Effect]) = [2]
   \<and> inflight (run sample_enum (initial_System sample_enum) reset_trace) = [2, 2]
   \<and> length (inflight (run sample_enum (initial_System sample_enum) reset_trace)) = 2"
  by (simp add: reset_trace_def run_Cons run_Nil initial_System_def initial_App_def
        handleGenerateStory_chain_working remove_nth_def
        handleGenerateStory_begin_def handleGenerateStory_settle_def handleReset_def
        bufferingEffect_def sample_story_def generateNextSegment_begin_def
        sample_enum_def)

lemma effect_only_when_idle:
  assumes "Reset \<notin> set evs"
    and "bufferingEffect E (app (run E (initial_System E) evs)) = Some i"
  shows "inflight (run E (initial_System E) evs) = []"
proof -
  from assms(2) have "\<not> isGeneratingRef (app (run E (initial_System E) evs))"
    unfolding bufferingEffect_spec by blast
  with single_flight_without_reset [OF assms(1), of E] show ?thesis
    by (auto simp: single_flight_def)
qed

text \<open>
  Claim C1. The buffering effect is to start a new segment generation only when fewer
  segments are generated than \<open>currentPlayingIndex + 3\<close>, fewer than \<open>totalSegmentsEstimate\<close>,
  and no generation request is in flight, and to ask for the segment after the last generated
  one. The two counts and the index are as claimed (\<open>bufferingEffect_spec\<close>), and as long as
  no reset happens the effect fires only when nothing is in flight (\<open>effect_only_when_idle\<close>).
  But the effect tests the guard flag, which \<^verbatim>\<open>handleReset\<close> clears while a request is in
  flight, the defect of claim C2. On the sample sequence, before its last step a request for
  segment 2 is in flight and the flag is clear; the effect asks for segment 2 and starts a
  second request beside the first.
\<close>

theorem effect_starts_beside_request_in_flight:
  "inflight (run sample_enum (initial_System sample_enum) (butlast reset_trace)) = [2]
   \<and> \<not> isGeneratingRef (app (run sample_enum (initial_System sample_enum) (butlast reset_trace)))
   \<and> bufferingEffect sample_enum
         (app (run sample_enum (initial_System sample_enum) (butlast reset_trace))) = Some 2
   \<and> inflight (step sample_enum
                  (run sample_enum (initial_System sample_enum) (butlast reset_trace)) Effect)
       = [2, 2]"
  by (simp add: reset_trace_def run_Cons run_Nil initial_System_def initial_App_def
        handleGenerateStory_chain_working remove_nth_def
        handleGenerateStory_begin_def handleGenerateStory_settle_def handleReset_def
        bufferingEffect_def sample_story_def generateNextSegment_begin_def
        sample_enum_def)

section \<open>Properties of components/StoryPlayer.tsx\<close>

subsection \<open>The handlers\<close>

lemma playSegment_starts:
  assumes "Option.bind segment audioBuffer = Some buf" "audioContextRef p = Some ctx"
  shows "playSegment segment offset p =
           p\<lparr>sourceRef := Some \<lparr> source_buffer = buf, source_offset = offset \<rparr>,
             startTimeRef := currentTime ctx - offset,
             started_sources :=
               started_sources p @ [\<lparr> source_buffer = buf, source_offset = offset \<rparr>]\<rparr>"
  using assms by (simp add: playSegment_def stopAudio_def Let_def)

lemma playSegment_new_context:
  assumes "Option.bind segment audioBuffer = Some buf" "audioContextRef p = None"
  shows "playSegment segment offset p =
           p\<lparr>audioContextRef := Some \<lparr> currentTime = 0 \<rparr>,
             sourceRef := Some \<lparr> source_buffer = buf, source_offset = offset \<rparr>,
             startTimeRef := 0 - offset,
             started_sources :=
               started_sources p @ [\<lparr> source_buffer = buf, source_offset = offset \<rparr>]\<rparr>"
  using assms by (simp add: playSegment_def stopAudio_def Let_def)

lemma handleSegmentEnd_next_ready:
  assumes "clip_at st (indexRef p + 1) = Some buf" "audioContextRef p = Some ctx"
  shows "handleSegmentEnd st bg p =
           p\<lparr>currentSegmentIndex := indexRef p + 1, segmentOffsetRef := 0,
             sourceRef := Some \<lparr> source_buffer = buf, source_offset = 0 \<rparr>,
             startTimeRef := currentTime ctx,
             started_sources :=
               started_sources p @ [\<lparr> source_buffer = buf, source_offset = 0 \<rparr>]\<rparr>"
proof -
  let ?p1 = "p\<lparr>currentSegmentIndex := indexRef p + 1, segmentOffsetRef := 0\<rparr>"
  from assms(1) have b: "Option.bind (js_index (segments st) (indexRef p + 1)) audioBuffer = Some buf"
    by (simp add: clip_at_def)
  have "handleSegmentEnd st bg p = playSegment (js_index (segments st) (indexRef p + 1)) 0 ?p1"
    by (simp add: handleSegmentEnd_def Let_def b)
  also have "\<dots> = ?p1\<lparr>sourceRef := Some \<lparr> source_buffer = buf, source_offset = 0 \<rparr>,
             startTimeRef := currentTime ctx - 0,
             started_sources :=
               started_sources ?p1 @ [\<lparr> source_buffer = buf, source_offset = 0 \<rparr>]\<rparr>"
    using b assms(2) by (intro playSegment_starts) simp_all
  finally show ?thesis by simp
qed

lemma handleSegmentEnd_next_absent:
  assumes "clip_at st (indexRef p + 1) = None"
  shows "handleSegmentEnd st bg p =
           (if indexRef p + 1 \<ge> totalSegmentsEstimate st \<and> \<not> bg
            then p\<lparr>currentSegmentIndex := indexRef p + 1, segmentOffsetRef := 0,
                   isPlaying := False\<rparr>
            else p\<lparr>currentSegmentIndex := indexRef p + 1, segmentOffsetRef := 0,
                   isBuffering := True\<rparr>)"
  using assms by (simp add: handleSegmentEnd_def Let_def clip_at_def)

lemma source_onended_ended:
  assumes "audioContextRef p = Some ctx"
    and "currentTime ctx - startTimeRef p \<ge> buffer_duration buf - 1 / 2"
  shows "source_onended st bg buf p = handleSegmentEnd st bg p"
  using assms by (simp add: source_onended_def Let_def)

lemma resumeWhenReady_starts:
  assumes "isBuffering p" "isPlaying p" "clip_at st (currentSegmentIndex p) = Some buf"
    and "audioContextRef p = Some ctx"
  shows "resumeWhenReady st p =
           p\<lparr>isBuffering := False,
             sourceRef := Some \<lparr> source_buffer = buf, source_offset = 0 \<rparr>,
             startTimeRef := currentTime ctx,
             started_sources :=
               started_sources p @ [\<lparr> source_buffer = buf, source_offset = 0 \<rparr>]\<rparr>"
proof -
  from assms(3) have b: "Option.bind (js_index (segments st) (currentSegmentIndex p)) audioBuffer
                          = Some buf"
    by (simp add: clip_at_def)
  have "resumeWhenReady st p =
          playSegment (js_index (segments st) (currentSegmentIndex p)) 0 (p\<lparr>isBuffering := False\<rparr>)"
    using assms(1,2) by (simp add: resumeWhenReady_def Let_def b)
  also have "\<dots> = (p\<lparr>isBuffering := False\<rparr>)\<lparr>sourceRef := Some \<lparr> source_buffer = buf, source_offset = 0 \<rparr>,
             startTimeRef := currentTime ctx - 0,
             started_sources :=
               started_sources (p\<lparr>isBuffering := False\<rparr>)
                 @ [\<lparr> source_buffer = buf, source_offset = 0 \<rparr>]\<rparr>"
    using b assms(4) by (intro playSegment_starts) simp_all
  finally show ?thesis by simp
qed

lemma resumeWhenReady_idle:
  assumes "\<not> isBuffering p \<or> \<not> isPlaying p \<or> clip_at st (currentSegmentIndex p) = None"
  shows "resumeWhenReady st p = p"
  using assms by (auto simp: resumeWhenReady_def Let_def clip_at_def)

subsection \<open>One clip ends\<close>

lemma run_effects_idle:
  assumes "\<not> isBuffering (player sys) \<or> \<not> isPlaying (player sys)
           \<or> clip_at (story_prop sys) (currentSegmentIndex (player sys)) = None"
  shows "run_effects sys =
           sys\<lparr>player := (player sys)\<lparr>indexRef := currentSegmentIndex (player sys)\<rparr>,
               source_live := source_live sys \<and> sourceRef (player sys) \<noteq> None\<rparr>"
proof -
  have "resumeWhenReady (story_prop sys) (syncIndexRef (player sys)) = syncIndexRef (player sys)"
    using assms by (intro resumeWhenReady_idle) (simp add: syncIndexRef_def)
  then show ?thesis
    by (simp add: run_effects_def installed_def syncIndexRef_def)
qed

lemma run_effects_resumes:
  assumes "isBuffering (player sys)" "isPlaying (player sys)"
    and "clip_at (story_prop sys) (currentSegmentIndex (player sys)) = Some buf"
    and "audioContextRef (player sys) = Some ctx"
  shows "run_effects sys =
           sys\<lparr>player := (player sys)\<lparr>indexRef := currentSegmentIndex (player sys),
                   isBuffering := False,
                   sourceRef := Some \<lparr> source_buffer = buf, source_offset = 0 \<rparr>,
                   startTimeRef := currentTime ctx,
                   started_sources := started_sources (player sys)
                     @ [\<lparr> source_buffer = buf, source_offset = 0 \<rparr>]\<rparr>,
               handler_story := story_prop sys,
               handler_generating := generating_prop sys,
               source_live := True\<rparr>"
proof -
  have "resumeWhenReady (story_prop sys) (syncIndexRef (player sys)) =
          (syncIndexRef (player sys))\<lparr>isBuffering := False,
             sourceRef := Some \<lparr> source_buffer = buf, source_offset = 0 \<rparr>,
             startTimeRef := currentTime ctx,
             started_sources := started_sources (syncIndexRef (player sys))
               @ [\<lparr> source_buffer = buf, source_offset = 0 \<rparr>]\<rparr>"
    using assms by (intro resumeWhenReady_starts) (simp_all add: syncIndexRef_def)
  then show ?thesis
    by (simp add: run_effects_def installed_def syncIndexRef_def)
qed


lemma player_invD:
  assumes "player_inv sys" "source_live sys"
  shows "indexRef (player sys) = currentSegmentIndex (player sys)"
    "isPlaying (player sys)" "\<not> isBuffering (player sys)"
    "sourceRef (player sys) \<noteq> None" "audioContextRef (player sys) \<noteq> None"
  using assms by (simp_all add: player_inv_def live_ok_def)

lemma Ended_handler:
  assumes "source_live sys" "sourceRef (player sys) = Some src"
    and "audioContextRef (player sys) = Some ctx"
    and "buffer_duration (source_buffer src) - 1 / 2 \<le> currentTime ctx - startTimeRef (player sys)"
  shows "player_step sys Ended =
           run_effects (installed (sys\<lparr>source_live := False\<rparr>) False
              (handleSegmentEnd (handler_story sys) (handler_generating sys) (player sys)))"
  using assms by (simp add: source_onended_ended)

lemma Ended_next_in_handler:
  assumes "player_inv sys" "source_live sys" "sourceRef (player sys) = Some src"
    and "audioContextRef (player sys) = Some ctx"
    and "buffer_duration (source_buffer src) - 1 / 2 \<le> currentTime ctx - startTimeRef (player sys)"
    and "clip_at (handler_story sys) (currentSegmentIndex (player sys) + 1) = Some nxt"
  shows "player_step sys Ended =
           sys\<lparr>player := (player sys)\<lparr>currentSegmentIndex := currentSegmentIndex (player sys) + 1,
                   indexRef := currentSegmentIndex (player sys) + 1,
                   segmentOffsetRef := 0,
                   sourceRef := Some \<lparr> source_buffer = nxt, source_offset = 0 \<rparr>,
                   startTimeRef := currentTime ctx,
                   started_sources := started_sources (player sys)
                     @ [\<lparr> source_buffer = nxt, source_offset = 0 \<rparr>]\<rparr>,
               source_live := True\<rparr>"
proof -
  note inv = player_invD [OF assms(1,2)]
  let ?p = "player sys"
  let ?h = "?p\<lparr>currentSegmentIndex := currentSegmentIndex ?p + 1, segmentOffsetRef := 0,
             sourceRef := Some \<lparr> source_buffer = nxt, source_offset = 0 \<rparr>,
             startTimeRef := currentTime ctx,
             started_sources :=
               started_sources ?p @ [\<lparr> source_buffer = nxt, source_offset = 0 \<rparr>]\<rparr>"
  have h: "handleSegmentEnd (handler_story sys) (handler_generating sys) ?p = ?h"
    using handleSegmentEnd_next_ready [of "handler_story sys" ?p nxt ctx "handler_generating sys"]
      assms(4,6) inv(1) by simp
  let ?s1 = "installed (sys\<lparr>source_live := False\<rparr>) False ?h"
  have s1: "?s1 = sys\<lparr>player := ?h, source_live := True\<rparr>"
    by (simp add: installed_def)
  have "run_effects ?s1 =
          ?s1\<lparr>player := (player ?s1)\<lparr>indexRef := currentSegmentIndex (player ?s1)\<rparr>,
               source_live := source_live ?s1 \<and> sourceRef (player ?s1) \<noteq> None\<rparr>"
    using run_effects_idle [of ?s1] inv(3) by (simp add: s1)
  then show ?thesis
    unfolding Ended_handler [OF assms(2-5)] h by (simp add: s1 inv(1))
qed

lemma Ended_stops:
  assumes "player_inv sys" "source_live sys" "sourceRef (player sys) = Some src"
    and "audioContextRef (player sys) = Some ctx"
    and "buffer_duration (source_buffer src) - 1 / 2 \<le> currentTime ctx - startTimeRef (player sys)"
    and "clip_at (handler_story sys) (currentSegmentIndex (player sys) + 1) = None"
    and "totalSegmentsEstimate (handler_story sys) \<le> currentSegmentIndex (player sys) + 1"
    and "\<not> handler_generating sys"
  shows "player_step sys Ended =
           sys\<lparr>player := (player sys)\<lparr>currentSegmentIndex := currentSegmentIndex (player sys) + 1,
                   indexRef := currentSegmentIndex (player sys) + 1,
                   segmentOffsetRef := 0, isPlaying := False\<rparr>,
               source_live := False\<rparr>"
proof -
  note inv = player_invD [OF assms(1,2)]
  let ?p = "player sys"
  let ?h = "?p\<lparr>currentSegmentIndex := currentSegmentIndex ?p + 1, segmentOffsetRef := 0,
                isPlaying := False\<rparr>"
  have h: "handleSegmentEnd (handler_story sys) (handler_generating sys) ?p = ?h"
    using handleSegmentEnd_next_absent [of "handler_story sys" ?p "handler_generating sys"]
      assms(6-8) inv(1) by simp
  let ?s1 = "installed (sys\<lparr>source_live := False\<rparr>) False ?h"
  have s1: "?s1 = sys\<lparr>player := ?h, source_live := False\<rparr>"
    by (simp add: installed_def)
  have "run_effects ?s1 =
          ?s1\<lparr>player := (player ?s1)\<lparr>indexRef := currentSegmentIndex (player ?s1)\<rparr>,
               source_live := source_live ?s1 \<and> sourceRef (player ?s1) \<noteq> None\<rparr>"
    using run_effects_idle [of ?s1] by (simp add: s1)
  then show ?thesis
    unfolding Ended_handler [OF assms(2-5)] h by (simp add: s1 inv(1))
qed

lemma Ended_buffers:
  assumes "player_inv sys" "source_live sys" "sourceRef (player sys) = Some src"
    and "audioContextRef (player sys) = Some ctx"
    and "buffer_duration (source_buffer src) - 1 / 2 \<le> currentTime ctx - startTimeRef (player sys)"
    and "clip_at (handler_story sys) (currentSegmentIndex (player sys) + 1) = None"
    and "\<not> (totalSegmentsEstimate (handler_story sys) \<le> currentSegmentIndex (player sys) + 1
            \<and> \<not> handler_generating sys)"
    and "clip_at (story_prop sys) (currentSegmentIndex (player sys) + 1) = None"
  shows "player_step sys Ended =
           sys\<lparr>player := (player sys)\<lparr>currentSegmentIndex := currentSegmentIndex (player sys) + 1,
                   indexRef := currentSegmentIndex (player sys) + 1,
                   segmentOffsetRef := 0, isBuffering := True\<rparr>,
               source_live := False\<rparr>"
proof -
  note inv = player_invD [OF assms(1,2)]
  let ?p = "player sys"
  let ?h = "?p\<lparr>currentSegmentIndex := currentSegmentIndex ?p + 1, segmentOffsetRef := 0,
                isBuffering := True\<rparr>"
  have h: "handleSegmentEnd (handler_story sys) (handler_generating sys) ?p = ?h"
    using handleSegmentEnd_next_absent [of "handler_story sys" ?p "handler_generating sys"]
      assms(6,7) inv(1) by auto
  let ?s1 = "installed (sys\<lparr>source_live := False\<rparr>) False ?h"
  have s1: "?s1 = sys\<lparr>player := ?h, source_live := False\<rparr>"
    by (simp add: installed_def)
  have "run_effects ?s1 =
          ?s1\<lparr>player := (player ?s1)\<lparr>indexRef := currentSegmentIndex (player ?s1)\<rparr>,
               source_live := source_live ?s1 \<and> sourceRef (player ?s1) \<noteq> None\<rparr>"
    using run_effects_idle [of ?s1] assms(8) inv(1) by (simp add: s1)
  then show ?thesis
    unfolding Ended_handler [OF assms(2-5)] h by (simp add: s1 inv(1))
qed

lemma Ended_next_in_props:
  assumes "player_inv sys" "source_live sys" "sourceRef (player sys) = Some src"
    and "audioContextRef (player sys) = Some ctx"
    and "buffer_duration (source_buffer src) - 1 / 2 \<le> currentTime ctx - startTimeRef (player sys)"
    and "clip_at (handler_story sys) (currentSegmentIndex (player sys) + 1) = None"
    and "\<not> (totalSegmentsEstimate (handler_story sys) \<le> currentSegmentIndex (player sys) + 1
            \<and> \<not> handler_generating sys)"
    and "clip_at (story_prop sys) (currentSegmentIndex (player sys) + 1) = Some nxt"
  shows "player_step sys Ended =
           sys\<lparr>player := (player sys)\<lparr>currentSegmentIndex := currentSegmentIndex (player sys) + 1,
                   indexRef := currentSegmentIndex (player sys) + 1,
                   segmentOffsetRef := 0,
                   sourceRef := Some \<lparr> source_buffer = nxt, source_offset = 0 \<rparr>,
                   startTimeRef := currentTime ctx,
                   started_sources := started_sources (player sys)
                     @ [\<lparr> source_buffer = nxt, source_offset = 0 \<rparr>]\<rparr>,
               handler_story := story_prop sys,
               handler_generating := generating_prop sys,
               source_live := True\<rparr>"
proof -
  note inv = player_invD [OF assms(1,2)]
  let ?p = "player sys"
  let ?h = "?p\<lparr>currentSegmentIndex := currentSegmentIndex ?p + 1, segmentOffsetRef := 0,
                isBuffering := True\<rparr>"
  have h: "handleSegmentEnd (handler_story sys) (handler_generating sys) ?p = ?h"
    using handleSegmentEnd_next_absent [of "handler_story sys" ?p "handler_generating sys"]
      assms(6,7) inv(1) by auto
  let ?s1 = "installed (sys\<lparr>source_live := False\<rparr>) False ?h"
  have s1: "?s1 = sys\<lparr>player := ?h, source_live := False\<rparr>"
    by (simp add: installed_def)
  have "run_effects ?s1 =
           ?s1\<lparr>player := (player ?s1)\<lparr>indexRef := currentSegmentIndex (player ?s1),
                   isBuffering := False,
                   sourceRef := Some \<lparr> source_buffer = nxt, source_offset = 0 \<rparr>,
                   startTimeRef := currentTime ctx,
                   started_sources := started_sources (player ?s1)
                     @ [\<lparr> source_buffer = nxt, source_offset = 0 \<rparr>]\<rparr>,
               handler_story := story_prop ?s1,
               handler_generating := generating_prop ?s1,
               source_live := True\<rparr>"
    using run_effects_resumes [of ?s1 nxt ctx] assms(4,8) inv(1,2) by (simp add: s1)
  then show ?thesis
    unfolding Ended_handler [OF assms(2-5)] h using inv(1,3) by (simp add: s1)
qed

subsection \<open>What the player keeps true\<close>

lemma playSegment_live:
  assumes "Option.bind segment audioBuffer \<noteq> None"
  shows "sourceRef (playSegment segment offset p) \<noteq> None"
    "audioContextRef (playSegment segment offset p) \<noteq> None"
    "isPlaying (playSegment segment offset p) = isPlaying p"
    "isBuffering (playSegment segment offset p) = isBuffering p"
    "currentSegmentIndex (playSegment segment offset p) = currentSegmentIndex p"
    "indexRef (playSegment segment offset p) = indexRef p"
    "length (started_sources (playSegment segment offset p)) = Suc (length (started_sources p))"
  using assms by (auto simp: playSegment_def stopAudio_def Let_def)

lemma run_effects_inv:
  assumes "live_ok sys"
  shows "player_inv (run_effects sys)"
proof (cases "isBuffering (player sys) \<and> isPlaying (player sys)
              \<and> clip_at (story_prop sys) (currentSegmentIndex (player sys)) \<noteq> None")
  case False
  then have "run_effects sys =
           sys\<lparr>player := (player sys)\<lparr>indexRef := currentSegmentIndex (player sys)\<rparr>,
               source_live := source_live sys \<and> sourceRef (player sys) \<noteq> None\<rparr>"
    by (intro run_effects_idle) auto
  with assms show ?thesis by (auto simp: player_inv_def live_ok_def)
next
  case True
  let ?q = "(syncIndexRef (player sys))\<lparr>isBuffering := False\<rparr>"
  let ?seg = "js_index (segments (story_prop sys)) (currentSegmentIndex (player sys))"
  from True have b: "Option.bind ?seg audioBuffer \<noteq> None" by (simp add: clip_at_def)
  from True have r: "resumeWhenReady (story_prop sys) (syncIndexRef (player sys)) =
                       playSegment ?seg 0 ?q"
    by (simp add: resumeWhenReady_def Let_def syncIndexRef_def clip_at_def)
  show ?thesis
    unfolding run_effects_def r
    using True playSegment_live [OF b, of 0 ?q]
    by (simp add: installed_def Let_def player_inv_def live_ok_def syncIndexRef_def)
qed

lemma Click_live_ok:
  assumes "live_ok sys"
  shows "live_ok (installed sys True (togglePlayback (story_prop sys) (player sys)))"
proof (cases "isPlaying (player sys)")
  case True
  then have "sourceRef (togglePlayback (story_prop sys) (player sys)) = None"
    "started_sources (togglePlayback (story_prop sys) (player sys)) = started_sources (player sys)"
    by (auto simp: togglePlayback_def stopAudio_def Let_def split: option.splits)
  then show ?thesis by (simp add: installed_def Let_def live_ok_def)
next
  case False
  with assms have nl: "\<not> source_live sys" by (auto simp: live_ok_def)
  let ?seg = "js_index (segments (story_prop sys)) (currentSegmentIndex (player sys))"
  show ?thesis
  proof (cases "Option.bind ?seg audioBuffer = None")
    case True
    with False have "togglePlayback (story_prop sys) (player sys) =
                       (player sys)\<lparr>isPlaying := True, isBuffering := True\<rparr>"
      by (simp add: togglePlayback_def Let_def)
    with nl show ?thesis by (simp add: installed_def Let_def live_ok_def)
  next
    case b: False
    let ?q = "(player sys)\<lparr>isPlaying := True, isBuffering := False\<rparr>"
    from False b have "togglePlayback (story_prop sys) (player sys) =
                         playSegment ?seg (segmentOffsetRef (player sys)) ?q"
      by (simp add: togglePlayback_def Let_def)
    then show ?thesis
      using playSegment_live [OF b, of "segmentOffsetRef (player sys)" ?q]
      by (simp add: installed_def Let_def live_ok_def)
  qed
qed

lemma handleSegmentEnd_live_ok:
  assumes "isPlaying p" "\<not> isBuffering p" "audioContextRef p \<noteq> None"
  shows "live_ok (installed (sys\<lparr>player := p, source_live := False\<rparr>) False
                    (handleSegmentEnd st bg p))"
proof (cases "clip_at st (indexRef p + 1)")
  case None
  then show ?thesis
    by (simp add: handleSegmentEnd_next_absent installed_def Let_def live_ok_def)
next
  case (Some buf)
  obtain ctx where "audioContextRef p = Some ctx" using assms(3) by auto
  from handleSegmentEnd_next_ready [OF Some this, of bg] assms(1,2) this
  show ?thesis by (simp add: installed_def Let_def live_ok_def)
qed

lemma Ended_live_ok:
  assumes "player_inv sys" "source_live sys"
  shows "live_ok (installed (sys\<lparr>source_live := False\<rparr>) False
                    (source_onended (handler_story sys) (handler_generating sys) buf (player sys)))"
proof -
  note inv = player_invD [OF assms]
  obtain ctx where ctx: "audioContextRef (player sys) = Some ctx" using inv(5) by auto
  show ?thesis
  proof (cases "buffer_duration buf - 1 / 2 \<le> currentTime ctx - startTimeRef (player sys)")
    case True
    with ctx have "source_onended (handler_story sys) (handler_generating sys) buf (player sys)
                   = handleSegmentEnd (handler_story sys) (handler_generating sys) (player sys)"
      by (intro source_onended_ended) simp_all
    with handleSegmentEnd_live_ok [OF inv(2,3,5), of sys] show ?thesis by simp
  next
    case False
    with ctx have "source_onended (handler_story sys) (handler_generating sys) buf (player sys)
                   = player sys"
      by (simp add: source_onended_def Let_def)
    then show ?thesis by (simp add: installed_def Let_def live_ok_def)
  qed
qed

lemma player_step_inv:
  assumes "player_inv sys"
  shows "player_inv (player_step sys ev)"
proof (cases ev)
  case Click
  from assms have "live_ok sys" by (simp add: player_inv_def)
  then show ?thesis unfolding Click by (simp add: run_effects_inv Click_live_ok)
next
  case Ended
  show ?thesis
  proof (cases "source_live sys")
    case False
    with assms Ended show ?thesis by simp
  next
    case True
    show ?thesis
    proof (cases "sourceRef (player sys)")
      case None
      with assms Ended True show ?thesis by simp
    next
      case (Some src)
      with Ended True show ?thesis
        by (simp add: run_effects_inv Ended_live_ok [OF assms True])
    qed
  qed
next
  case (Tick dt)
  with assms show ?thesis by (auto simp: player_inv_def live_ok_def time_passes_def)
next
  case (Props st bg)
  from assms have "live_ok (sys\<lparr>story_prop := st, generating_prop := bg\<rparr>)"
    by (simp add: player_inv_def live_ok_def)
  then show ?thesis unfolding Props by (simp add: run_effects_inv)
qed

lemma player_run_inv: "player_inv sys \<Longrightarrow> player_inv (player_run sys evs)"
  unfolding player_run_def by (induction evs arbitrary: sys) (simp_all add: player_step_inv)

lemma player_inv_mount: "player_inv (mount st bg)"
  by (simp add: mount_def player_inv_def live_ok_def)

lemma reachable_inv: "player_inv (player_run (mount st bg) evs)"
  by (rule player_run_inv) (rule player_inv_mount)

subsection \<open>Clips in sequence\<close>

lemma Tick_playing:
  assumes "player_inv sys" "source_live sys" "sourceRef (player sys) = Some src"
    and "audioContextRef (player sys) = Some ctx"
  shows "player_inv (player_step sys (Tick dt))" "source_live (player_step sys (Tick dt))"
    "sourceRef (player (player_step sys (Tick dt))) = Some src"
    "audioContextRef (player (player_step sys (Tick dt))) =
       Some (ctx\<lparr>currentTime := currentTime ctx + dt\<rparr>)"
    "startTimeRef (player (player_step sys (Tick dt))) = startTimeRef (player sys)"
    "currentSegmentIndex (player (player_step sys (Tick dt))) = currentSegmentIndex (player sys)"
    "started_sources (player (player_step sys (Tick dt))) = started_sources (player sys)"
    "story_prop (player_step sys (Tick dt)) = story_prop sys"
    "handler_story (player_step sys (Tick dt)) = handler_story sys"
    "handler_generating (player_step sys (Tick dt)) = handler_generating sys"
    "generating_prop (player_step sys (Tick dt)) = generating_prop sys"
  using assms player_step_inv [OF assms(1), of "Tick dt"] by (simp_all add: time_passes_def)

lemma one_clip_ends:
  assumes "player_inv sys" "source_live sys" "sourceRef (player sys) = Some src"
    and "audioContextRef (player sys) = Some ctx"
    and "buffer_duration (source_buffer src) - 1 / 2
           \<le> currentTime ctx - startTimeRef (player sys) + dt"
    and "clip_at (story_prop sys) (currentSegmentIndex (player sys) + 1) = Some b"
    and "clip_at (handler_story sys) (currentSegmentIndex (player sys) + 1) = Some b
         \<or> (clip_at (handler_story sys) (currentSegmentIndex (player sys) + 1) = None
             \<and> \<not> (totalSegmentsEstimate (handler_story sys) \<le> currentSegmentIndex (player sys) + 1
                    \<and> \<not> handler_generating sys))"
  shows "player_step (player_step sys (Tick dt)) Ended =
           sys\<lparr>player := (player sys)\<lparr>
                   audioContextRef := Some (ctx\<lparr>currentTime := currentTime ctx + dt\<rparr>),
                   currentSegmentIndex := currentSegmentIndex (player sys) + 1,
                   indexRef := currentSegmentIndex (player sys) + 1,
                   segmentOffsetRef := 0,
                   sourceRef := Some \<lparr> source_buffer = b, source_offset = 0 \<rparr>,
                   startTimeRef := currentTime ctx + dt,
                   started_sources := started_sources (player sys)
                     @ [\<lparr> source_buffer = b, source_offset = 0 \<rparr>]\<rparr>,
               handler_story :=
                 (if clip_at (handler_story sys) (currentSegmentIndex (player sys) + 1) = Some b
                  then handler_story sys else story_prop sys),
               handler_generating :=
                 (if clip_at (handler_story sys) (currentSegmentIndex (player sys) + 1) = Some b
                  then handler_generating sys else generating_prop sys),
               source_live := True\<rparr>"
proof -
  define t where "t = player_step sys (Tick dt)"
  let ?c = "ctx\<lparr>currentTime := currentTime ctx + dt\<rparr>"
  note t = Tick_playing [OF assms(1-4), of dt, folded t_def]
  have e: "buffer_duration (source_buffer src) - 1 / 2 \<le> currentTime ?c - startTimeRef (player t)"
    using assms(5) t(5) by simp
  have tk: "t = sys\<lparr>player := (player sys)\<lparr>audioContextRef := Some ?c\<rparr>\<rparr>"
    using assms(4) by (simp add: t_def time_passes_def)
  have g: "player_step (player_step sys (Tick dt)) Ended = player_step t Ended"
    by (simp only: t_def)
  show ?thesis
  proof (cases "clip_at (handler_story sys) (currentSegmentIndex (player sys) + 1) = Some b")
    case True
    then have "clip_at (handler_story t) (currentSegmentIndex (player t) + 1) = Some b"
      using t by simp
    from Ended_next_in_handler [OF t(1,2,3,4) e this]
    have "player_step t Ended =
           t\<lparr>player := (player t)\<lparr>currentSegmentIndex := currentSegmentIndex (player t) + 1,
                   indexRef := currentSegmentIndex (player t) + 1,
                   segmentOffsetRef := 0,
                   sourceRef := Some \<lparr> source_buffer = b, source_offset = 0 \<rparr>,
                   startTimeRef := currentTime ?c,
                   started_sources := started_sources (player t)
                     @ [\<lparr> source_buffer = b, source_offset = 0 \<rparr>]\<rparr>,
               source_live := True\<rparr>" .
    then show ?thesis unfolding g using True unfolding tk by simp
  next
    case False
    with assms(7) have
      n: "clip_at (handler_story t) (currentSegmentIndex (player t) + 1) = None"
      and s: "\<not> (totalSegmentsEstimate (handler_story t) \<le> currentSegmentIndex (player t) + 1
               \<and> \<not> handler_generating t)"
      using t by auto
    have p: "clip_at (story_prop t) (currentSegmentIndex (player t) + 1) = Some b"
      using assms(6) t by simp
    from Ended_next_in_props [OF t(1,2,3,4) e n s p]
    show ?thesis unfolding g using False unfolding tk by simp
  qed
qed

lemma clips_end_plays:
  assumes "player_inv sys" "source_live sys" "sourceRef (player sys) = Some src"
    and "audioContextRef (player sys) = Some ctx"
    and "on_time (currentTime ctx - startTimeRef (player sys)) (source_buffer src) dts bs"
    and "\<forall>k<length bs. clip_at (story_prop sys) (currentSegmentIndex (player sys) + 1 + int k)
                          = Some (bs ! k)"
    and "\<forall>k<length bs.
           clip_at (handler_story sys) (currentSegmentIndex (player sys) + 1 + int k) = Some (bs ! k)
           \<or> (clip_at (handler_story sys) (currentSegmentIndex (player sys) + 1 + int k) = None
               \<and> \<not> (totalSegmentsEstimate (handler_story sys)
                        \<le> currentSegmentIndex (player sys) + 1 + int k
                      \<and> \<not> handler_generating sys))"
  shows "currentSegmentIndex (player (clips_end dts sys))
           = currentSegmentIndex (player sys) + int (length bs)
    \<and> indexRef (player (clips_end dts sys)) = currentSegmentIndex (player sys) + int (length bs)
    \<and> started_sources (player (clips_end dts sys))
        = started_sources (player sys)
            @ map (\<lambda>b. \<lparr> source_buffer = b, source_offset = 0 \<rparr>) bs
    \<and> sourceRef (player (clips_end dts sys))
        = Some (last (src # map (\<lambda>b. \<lparr> source_buffer = b, source_offset = 0 \<rparr>) bs))
    \<and> source_live (clips_end dts sys)
    \<and> isPlaying (player (clips_end dts sys)) \<and> \<not> isBuffering (player (clips_end dts sys))
    \<and> story_prop (clips_end dts sys) = story_prop sys"
  using assms
proof (induction bs arbitrary: sys src ctx dts)
  case Nil
  then have "dts = []" by (cases dts) simp_all
  with Nil player_invD [OF Nil.prems(1,2)] show ?case by simp
next
  case (Cons b bs)
  then obtain dt dts' where dts: "dts = dt # dts'" by (cases dts) simp_all
  let ?i = "currentSegmentIndex (player sys)"
  define s2 where "s2 = player_step (player_step sys (Tick dt)) Ended"
  let ?c = "ctx\<lparr>currentTime := currentTime ctx + dt\<rparr>"
  let ?src = "\<lparr> source_buffer = b, source_offset = 0 \<rparr>"
  from Cons.prems(5) dts have
    e: "buffer_duration (source_buffer src) - 1 / 2 \<le> currentTime ctx - startTimeRef (player sys) + dt"
    and ot: "on_time 0 b dts' bs" by simp_all
  from Cons.prems(6) have p0: "clip_at (story_prop sys) (?i + 1) = Some b" by force
  from Cons.prems(7) have h0:
    "clip_at (handler_story sys) (?i + 1) = Some b
     \<or> (clip_at (handler_story sys) (?i + 1) = None
         \<and> \<not> (totalSegmentsEstimate (handler_story sys) \<le> ?i + 1 \<and> \<not> handler_generating sys))"
    by force
  note s2 = one_clip_ends [OF Cons.prems(1-4) e p0 h0, folded s2_def]
  have inv2: "player_inv s2"
    unfolding s2_def by (intro player_step_inv Cons.prems(1))
  have live2: "source_live s2" and src2: "sourceRef (player s2) = Some ?src"
    and ctx2: "audioContextRef (player s2) = Some ?c"
    and i2: "currentSegmentIndex (player s2) = ?i + 1"
    and st2: "startTimeRef (player s2) = currentTime ctx + dt"
    and log2: "started_sources (player s2) = started_sources (player sys) @ [?src]"
    and sp2: "story_prop s2 = story_prop sys"
    unfolding s2 by simp_all
  have ot2: "on_time (currentTime ?c - startTimeRef (player s2)) (source_buffer ?src) dts' bs"
    using ot st2 by simp
  have p2: "\<forall>k<length bs. clip_at (story_prop s2) (currentSegmentIndex (player s2) + 1 + int k)
                          = Some (bs ! k)"
  proof (intro allI impI)
    fix k assume "k < length bs"
    then have "Suc k < length (b # bs)" by simp
    with Cons.prems(6) have "clip_at (story_prop sys) (?i + 1 + int (Suc k)) = Some ((b # bs) ! Suc k)"
      by blast
    then show "clip_at (story_prop s2) (currentSegmentIndex (player s2) + 1 + int k) = Some (bs ! k)"
      by (simp add: sp2 i2 add.commute add.left_commute)
  qed
  have h2: "\<forall>k<length bs.
           clip_at (handler_story s2) (currentSegmentIndex (player s2) + 1 + int k) = Some (bs ! k)
           \<or> (clip_at (handler_story s2) (currentSegmentIndex (player s2) + 1 + int k) = None
               \<and> \<not> (totalSegmentsEstimate (handler_story s2)
                        \<le> currentSegmentIndex (player s2) + 1 + int k
                      \<and> \<not> handler_generating s2))"
  proof (intro allI impI)
    fix k assume k: "k < length bs"
    then have sk: "Suc k < length (b # bs)" by simp
    have ix: "currentSegmentIndex (player s2) + 1 + int k = ?i + 1 + int (Suc k)"
      by (simp add: i2)
    have nth: "(b # bs) ! Suc k = bs ! k" by simp
    show "clip_at (handler_story s2) (currentSegmentIndex (player s2) + 1 + int k) = Some (bs ! k)
           \<or> (clip_at (handler_story s2) (currentSegmentIndex (player s2) + 1 + int k) = None
               \<and> \<not> (totalSegmentsEstimate (handler_story s2)
                        \<le> currentSegmentIndex (player s2) + 1 + int k
                      \<and> \<not> handler_generating s2))"
    proof (cases "clip_at (handler_story sys) (?i + 1) = Some b")
      case True
      then have hs: "handler_story s2 = handler_story sys"
        "handler_generating s2 = handler_generating sys"
        unfolding s2 by simp_all
      from Cons.prems(7) sk have
        "clip_at (handler_story sys) (?i + 1 + int (Suc k)) = Some ((b # bs) ! Suc k)
           \<or> (clip_at (handler_story sys) (?i + 1 + int (Suc k)) = None
               \<and> \<not> (totalSegmentsEstimate (handler_story sys) \<le> ?i + 1 + int (Suc k)
                      \<and> \<not> handler_generating sys))"
        by blast
      then show ?thesis unfolding ix hs nth .
    next
      case False
      then have hs: "handler_story s2 = story_prop sys" unfolding s2 by simp
      from Cons.prems(6) sk have
        "clip_at (story_prop sys) (?i + 1 + int (Suc k)) = Some ((b # bs) ! Suc k)" by blast
      then show ?thesis unfolding ix hs nth by blast
    qed
  qed
  have ce: "clips_end dts sys = clips_end dts' s2"
    by (simp only: dts clips_end.simps s2_def)
  from Cons.IH [OF inv2 live2 src2 ctx2 ot2 p2 h2]
  show ?case
    unfolding ce by (simp add: i2 log2 sp2)
qed

lemma Ended_early:
  assumes "player_inv sys" "source_live sys" "sourceRef (player sys) = Some src"
    and "audioContextRef (player sys) = Some ctx"
    and "currentTime ctx - startTimeRef (player sys) < buffer_duration (source_buffer src) - 1 / 2"
  shows "player_step sys Ended = sys\<lparr>source_live := False\<rparr>"
proof -
  note inv = player_invD [OF assms(1,2)]
  have h: "source_onended (handler_story sys) (handler_generating sys) (source_buffer src) (player sys)
             = player sys"
    using assms(4,5) by (simp add: source_onended_def Let_def)
  let ?s1 = "installed (sys\<lparr>source_live := False\<rparr>) False (player sys)"
  have s1: "?s1 = sys\<lparr>source_live := False\<rparr>"
    by (simp add: installed_def)
  have "run_effects ?s1 =
          ?s1\<lparr>player := (player ?s1)\<lparr>indexRef := currentSegmentIndex (player ?s1)\<rparr>,
               source_live := source_live ?s1 \<and> sourceRef (player ?s1) \<noteq> None\<rparr>"
    using run_effects_idle [of ?s1] inv(3) by (simp add: s1)
  then show ?thesis
    using assms(2,3) inv(1) by (simp add: h s1)
qed

lemma Props_starts:
  assumes "indexRef (player sys) = currentSegmentIndex (player sys)"
    and "isBuffering (player sys)" "isPlaying (player sys)"
    and "audioContextRef (player sys) = Some ctx"
    and "clip_at st' (currentSegmentIndex (player sys)) = Some b"
  shows "player_step sys (Props st' bg') =
           sys\<lparr>story_prop := st', generating_prop := bg',
               player := (player sys)\<lparr>isBuffering := False,
                   sourceRef := Some \<lparr> source_buffer = b, source_offset = 0 \<rparr>,
                   startTimeRef := currentTime ctx,
                   started_sources := started_sources (player sys)
                     @ [\<lparr> source_buffer = b, source_offset = 0 \<rparr>]\<rparr>,
               handler_story := st', handler_generating := bg', source_live := True\<rparr>"
proof -
  let ?s1 = "sys\<lparr>story_prop := st', generating_prop := bg'\<rparr>"
  have "run_effects ?s1 =
           ?s1\<lparr>player := (player ?s1)\<lparr>indexRef := currentSegmentIndex (player ?s1),
                   isBuffering := False,
                   sourceRef := Some \<lparr> source_buffer = b, source_offset = 0 \<rparr>,
                   startTimeRef := currentTime ctx,
                   started_sources := started_sources (player ?s1)
                     @ [\<lparr> source_buffer = b, source_offset = 0 \<rparr>]\<rparr>,
               handler_story := story_prop ?s1,
               handler_generating := generating_prop ?s1,
               source_live := True\<rparr>"
    using assms by (intro run_effects_resumes) simp_all
  then show ?thesis using assms(1) by simp
qed


subsection \<open>Sample runs of the player\<close>

lemmas player_defs =
  player_run_def mount_def run_effects_def installed_def togglePlayback_def playSegment_def
  stopAudio_def resumeWhenReady_def syncIndexRef_def source_onended_def handleSegmentEnd_def
  time_passes_def Let_def js_index_def narration_def sample_clips_def

lemma narration_clips:
  "clip_at (narration 3) 1 = Some \<lparr> buffer_duration = 30 \<rparr>"
  "clip_at (narration 3) 2 = Some \<lparr> buffer_duration = 20 \<rparr>"
  "clip_at (narration 3) 3 = None"
  "clip_at (narration 2) 1 = Some \<lparr> buffer_duration = 30 \<rparr>"
  "clip_at (narration 1) 1 = None"
  "clip_at (narration (Suc 0)) 1 = None"
  "totalSegmentsEstimate (narration n) = 3"
  by (simp_all add: clip_at_def js_index_def narration_def sample_clips_def)

lemma sample_first_clip:
  "player_run (mount (narration 3) False) [Click] =
     \<lparr> player =
         \<lparr> isPlaying = True, currentSegmentIndex = 0, isBuffering = False,
           audioContextRef = Some \<lparr> currentTime = 0 \<rparr>,
           sourceRef = Some \<lparr> source_buffer = \<lparr> buffer_duration = 40 \<rparr>, source_offset = 0 \<rparr>,
           startTimeRef = 0, segmentOffsetRef = 0, indexRef = 0,
           started_sources = [\<lparr> source_buffer = \<lparr> buffer_duration = 40 \<rparr>, source_offset = 0 \<rparr>] \<rparr>,
       story_prop = narration 3, generating_prop = False,
       handler_story = narration 3, handler_generating = False, source_live = True \<rparr>"
  by (simp add: player_defs)

lemma sample_last_clip:
  "player_run (mount (narration 3) False) [Click, Tick 40, Ended, Tick 30, Ended] =
     \<lparr> player =
         \<lparr> isPlaying = True, currentSegmentIndex = 2, isBuffering = False,
           audioContextRef = Some \<lparr> currentTime = 70 \<rparr>,
           sourceRef = Some \<lparr> source_buffer = \<lparr> buffer_duration = 20 \<rparr>, source_offset = 0 \<rparr>,
           startTimeRef = 70, segmentOffsetRef = 0, indexRef = 2,
           started_sources =
             [\<lparr> source_buffer = \<lparr> buffer_duration = 40 \<rparr>, source_offset = 0 \<rparr>,
              \<lparr> source_buffer = \<lparr> buffer_duration = 30 \<rparr>, source_offset = 0 \<rparr>,
              \<lparr> source_buffer = \<lparr> buffer_duration = 20 \<rparr>, source_offset = 0 \<rparr>] \<rparr>,
       story_prop = narration 3, generating_prop = False,
       handler_story = narration 3, handler_generating = False, source_live = True \<rparr>"
  by (simp add: player_defs)

lemma sample_older_render:
  "player_run (mount (narration 1) True) [Click, Props (narration 3) False] =
     \<lparr> player =
         \<lparr> isPlaying = True, currentSegmentIndex = 0, isBuffering = False,
           audioContextRef = Some \<lparr> currentTime = 0 \<rparr>,
           sourceRef = Some \<lparr> source_buffer = \<lparr> buffer_duration = 40 \<rparr>, source_offset = 0 \<rparr>,
           startTimeRef = 0, segmentOffsetRef = 0, indexRef = 0,
           started_sources = [\<lparr> source_buffer = \<lparr> buffer_duration = 40 \<rparr>, source_offset = 0 \<rparr>] \<rparr>,
       story_prop = narration 3, generating_prop = False,
       handler_story = narration 1, handler_generating = True, source_live = True \<rparr>"
  by (simp add: player_defs)

lemma sample_only_clip:
  "player_run (mount (narration 1) True) [Click] =
     \<lparr> player =
         \<lparr> isPlaying = True, currentSegmentIndex = 0, isBuffering = False,
           audioContextRef = Some \<lparr> currentTime = 0 \<rparr>,
           sourceRef = Some \<lparr> source_buffer = \<lparr> buffer_duration = 40 \<rparr>, source_offset = 0 \<rparr>,
           startTimeRef = 0, segmentOffsetRef = 0, indexRef = 0,
           started_sources = [\<lparr> source_buffer = \<lparr> buffer_duration = 40 \<rparr>, source_offset = 0 \<rparr>] \<rparr>,
       story_prop = narration 1, generating_prop = True,
       handler_story = narration 1, handler_generating = True, source_live = True \<rparr>"
  by (simp add: player_defs)



lemma togglePlayback_pause:
  assumes "isPlaying p" "\<not> isBuffering p" "audioContextRef p = Some ctx"
  shows "togglePlayback st p =
           p\<lparr>segmentOffsetRef := currentTime ctx - startTimeRef p, sourceRef := None,
             isPlaying := False\<rparr>"
  using assms by (simp add: togglePlayback_def stopAudio_def)

lemma togglePlayback_resume:
  assumes "\<not> isPlaying p" "audioContextRef p = Some ctx"
    and "js_index (segments st) (currentSegmentIndex p) = Some seg" "audioBuffer seg = Some buf"
  shows "togglePlayback st p =
           p\<lparr>isPlaying := True, isBuffering := False,
             sourceRef := Some \<lparr> source_buffer = buf, source_offset = segmentOffsetRef p \<rparr>,
             startTimeRef := currentTime ctx - segmentOffsetRef p,
             started_sources := started_sources p
               @ [\<lparr> source_buffer = buf, source_offset = segmentOffsetRef p \<rparr>]\<rparr>"
  using assms by (simp add: togglePlayback_def Let_def playSegment_def stopAudio_def)

text \<open>
  Claim C4. Pause followed by resume preserves the playback position within the current
  segment. While a clip plays (the audio context exists and the player is not buffering),
  pausing records the offset as \<^verbatim>\<open>currentTime\<close> minus the recorded start time and stops the
  source; resuming, any time later, plays the current segment from that offset and sets the
  new start time to \<^verbatim>\<open>currentTime\<close> minus the offset, so the position that the bookkeeping
  gives at the resume is the position at the pause. Times are real numbers here.
\<close>

theorem pause_resume_position:
  assumes "isPlaying p" "\<not> isBuffering p" "audioContextRef p = Some ctx"
    and "js_index (segments st') (currentSegmentIndex p) = Some seg" "audioBuffer seg = Some buf"
  shows "segmentOffsetRef (togglePlayback st p) = currentTime ctx - startTimeRef p
    \<and> \<not> isPlaying (togglePlayback st p)
    \<and> sourceRef (togglePlayback st p) = None
    \<and> sourceRef (togglePlayback st' (time_passes dt (togglePlayback st p))) =
        Some \<lparr> source_buffer = buf, source_offset = currentTime ctx - startTimeRef p \<rparr>
    \<and> startTimeRef (togglePlayback st' (time_passes dt (togglePlayback st p))) =
        (currentTime ctx + dt) - (currentTime ctx - startTimeRef p)
    \<and> playback_position (togglePlayback st' (time_passes dt (togglePlayback st p))) =
        playback_position p
    \<and> isPlaying (togglePlayback st' (time_passes dt (togglePlayback st p)))
    \<and> \<not> isBuffering (togglePlayback st' (time_passes dt (togglePlayback st p)))
    \<and> currentSegmentIndex (togglePlayback st' (time_passes dt (togglePlayback st p))) =
        currentSegmentIndex p"
proof -
  let ?paused = "p\<lparr>segmentOffsetRef := currentTime ctx - startTimeRef p, sourceRef := None,
                   isPlaying := False\<rparr>"
  let ?later = "time_passes dt ?paused"
  have 1: "togglePlayback st p = ?paused"
    using assms(1-3) by (rule togglePlayback_pause)
  have c: "audioContextRef ?later = Some \<lparr> currentTime = currentTime ctx + dt \<rparr>"
    using assms(3) by (simp add: time_passes_def)
  have 2: "togglePlayback st' ?later =
           ?later\<lparr>isPlaying := True, isBuffering := False,
             sourceRef := Some \<lparr> source_buffer = buf, source_offset = segmentOffsetRef ?later \<rparr>,
             startTimeRef := currentTime \<lparr> currentTime = currentTime ctx + dt \<rparr>
                               - segmentOffsetRef ?later,
             started_sources := started_sources ?later
               @ [\<lparr> source_buffer = buf, source_offset = segmentOffsetRef ?later \<rparr>]\<rparr>"
    using c assms(4,5) by (intro togglePlayback_resume) (simp_all add: time_passes_def)
  show ?thesis
    unfolding 1 2 using assms(3) by (simp add: time_passes_def playback_position_def)
qed

theorem pause_resume_position_witness:
  "segmentOffsetRef (togglePlayback sample_story sample_player) = 15
   \<and> sourceRef (togglePlayback sample_story (time_passes 7 (togglePlayback sample_story sample_player))) =
       Some \<lparr> source_buffer = sample_buffer, source_offset = 15 \<rparr>
   \<and> startTimeRef (togglePlayback sample_story (time_passes 7 (togglePlayback sample_story sample_player))) = 17
   \<and> playback_position (togglePlayback sample_story (time_passes 7 (togglePlayback sample_story sample_player))) =
       Some 15"
proof -
  have h: "isPlaying sample_player" "\<not> isBuffering sample_player"
    "audioContextRef sample_player = Some \<lparr> currentTime = 25 \<rparr>"
    "js_index (segments sample_story) (currentSegmentIndex sample_player) = Some (sample_segment 1)"
    "audioBuffer (sample_segment 1) = Some sample_buffer"
    by (simp_all add: sample_player_def sample_story_def js_index_def sample_segment_def)
  have v: "startTimeRef sample_player = 10" "playback_position sample_player = Some 15"
    by (simp_all add: sample_player_def playback_position_def)
  show ?thesis
    using pause_resume_position [OF h, of sample_story 7]
    by (simp add: v)
qed

section \<open>Properties of components/RoutePlanner.tsx\<close>

lemma directions_callback_details:
  assumes "directions_callback result status p = Inr (p', Some details)"
  shows "durationSeconds details \<le> 14400 \<and> status = OK"
proof (cases "status = OK")
  case False
  with assms show ?thesis by (simp add: directions_callback_def)
next
  case ok: True
  show ?thesis
  proof (cases "js_index result 0")
    case None
    with assms ok show ?thesis by (simp add: directions_callback_def)
  next
    case legs: (Some legs)
    show ?thesis
    proof (cases "js_index legs 0")
      case None
      with assms ok legs show ?thesis by (simp add: directions_callback_def)
    next
      case (Some leg)
      show ?thesis
      proof (cases "duration_value leg > 14400")
        case True
        with assms ok legs Some show ?thesis by (simp add: directions_callback_def)
      next
        case False
        with assms ok legs Some have "durationSeconds details = duration_value leg"
          by (auto simp: directions_callback_def)
        with False ok show ?thesis by simp
      qed
    qed
  qed
qed

lemma directions_callback_too_long:
  assumes "js_index result 0 = Some legs" "js_index legs 0 = Some leg" "duration_value leg > 14400"
  shows "directions_callback result OK p =
           Inr (p\<lparr>isLoading := False,
                  error_state := Some ''Journey too long. Try a route under 4 hours.''\<rparr>, None)"
  using assms by (simp add: directions_callback_def)

lemma handleCalculate_directions:
  assumes "handleCalculate si ei True (Some (result, status)) p = Inr (p', Some details)"
  shows "durationSeconds details \<le> 14400"
proof -
  let ?fs = "case si of None \<Rightarrow> startAddress_state p
             | Some v \<Rightarrow> if v \<noteq> [] then v else startAddress_state p"
  let ?fe = "case ei of None \<Rightarrow> endAddress_state p
             | Some v \<Rightarrow> if v \<noteq> [] then v else endAddress_state p"
  show ?thesis
  proof (cases "?fs = [] \<or> ?fe = []")
    case True
    then have "handleCalculate si ei True (Some (result, status)) p =
                 Inr (p\<lparr>error_state := Some ''Please define your journey start and end.''\<rparr>, None)"
      unfolding handleCalculate_def Let_def by (rule if_P)
    with assms show ?thesis by simp
  next
    case False
    then have "handleCalculate si ei True (Some (result, status)) p =
                 directions_callback result status (p\<lparr>error_state := None, isLoading := True\<rparr>)"
      unfolding handleCalculate_def Let_def by (subst if_not_P) simp_all
    with assms show ?thesis by (simp add: directions_callback_details)
  qed
qed

text \<open>
  Claim C10. When the directions service answers \<^verbatim>\<open>OK\<close> with a route whose first leg lasts
  more than 14400 seconds, the callback of \<^verbatim>\<open>handleCalculate\<close> sets the error message
  about the four hours and does not call \<^verbatim>\<open>onRouteFound\<close>. Hence every route that the
  directions path hands to \<^verbatim>\<open>onRouteFound\<close> has \<open>durationSeconds\<close> at most 14400.
\<close>

theorem four_hour_limit:
  "(js_index result 0 = Some legs \<and> js_index legs 0 = Some leg \<and> duration_value leg > 14400 \<longrightarrow>
      directions_callback result OK p =
        Inr (p\<lparr>isLoading := False,
               error_state := Some ''Journey too long. Try a route under 4 hours.''\<rparr>, None))
   \<and> (directions_callback result status p = Inr (p', Some details) \<longrightarrow>
        durationSeconds details \<le> 14400)
   \<and> (handleCalculate si ei True (Some (result, status)) p = Inr (p', Some details) \<longrightarrow>
        durationSeconds details \<le> 14400)"
  using directions_callback_details [of result status p p' details]
    handleCalculate_directions [of si ei result status p p' details]
    directions_callback_too_long [of result legs leg p]
  by blast

theorem four_hour_limit_witness:
  "directions_callback [[sample_leg 14401]] OK sample_planner =
     Inr (sample_planner\<lparr>isLoading := False,
            error_state := Some ''Journey too long. Try a route under 4 hours.''\<rparr>, None)
   \<and> handleCalculate None None True (Some ([[sample_leg 14400]], OK)) sample_planner =
     Inr (sample_planner,
          Some \<lparr> startAddress = ''Quay'', endAddress = ''Mill'', distance = ''900 km'',
                 duration = ''a while'', durationSeconds = 14400, travelMode = WALKING,
                 voiceName = ''Kore'', storyStyle = NOIR \<rparr>)
   \<and> durationSeconds \<lparr> startAddress = ''Quay'', endAddress = ''Mill'', distance = ''900 km'',
                 duration = ''a while'', durationSeconds = 14400, travelMode = WALKING,
                 voiceName = ''Kore'', storyStyle = NOIR \<rparr> \<le> 14400"
proof -
  let ?details = "\<lparr> startAddress = ''Quay'', endAddress = ''Mill'', distance = ''900 km'',
                 duration = ''a while'', durationSeconds = 14400, travelMode = WALKING,
                 voiceName = ''Kore'', storyStyle = NOIR \<rparr>"
  have hc: "handleCalculate None None True (Some ([[sample_leg 14400]], OK)) sample_planner =
     Inr (sample_planner, Some ?details)"
    by (simp add: handleCalculate_def directions_callback_def sample_planner_def js_index_def Let_def
          sample_leg_def)
  have ix: "js_index [[sample_leg 14401]] 0 = Some [sample_leg 14401]"
    "js_index [sample_leg 14401] 0 = Some (sample_leg 14401)"
    "duration_value (sample_leg 14401) > 14400"
    by (simp_all add: js_index_def sample_leg_def)
  show ?thesis
    using hc ix
      four_hour_limit [where result = "[[sample_leg 14401]]" and legs = "[sample_leg 14401]"
        and leg = "sample_leg 14401" and p = sample_planner and status = OK
        and p' = sample_planner and si = None and ei = None and details = ?details]
      four_hour_limit [where result = "[[sample_leg 14400]]" and legs = "[sample_leg 14400]"
        and leg = "sample_leg 14400" and p = sample_planner and status = OK
        and p' = sample_planner and si = None and ei = None and details = ?details]
    by simp
qed

end
